(* ===== verification/Prelude.thy ===== *)
theory Prelude
  imports Main "HOL-Library.Mapping" "HOL-Library.AList_Mapping"
begin

text \<open>
  What every component of the development shares: the error plumbing (a Go function that
  returns \<open>(value, error)\<close> is a sum, \<open>Inl\<close> the error; \<open>if err != nil { return err }\<close> is
  \<open>attempt\<close>), the facts on lists, sums and finite tables the components use, and the
  collections the proofs draw on.
\<close>

named_theorems go_eval \<open>what evaluates the library functions on concrete strings and addresses\<close>

section \<open>Go's error returns\<close>

type_synonym ('e, 'a) result = "'e + 'a"

text \<open>\<open>v, err := f(); if err != nil { return ..., err }\<close> followed by the rest of the body.\<close>

primrec attempt :: "('e, 'a) result \<Rightarrow> ('a \<Rightarrow> ('e, 'b) result) \<Rightarrow> ('e, 'b) result" where
  "attempt (Inl e) k = Inl e"
| "attempt (Inr x) k = k x"

lemma attempt_Inr_iff: "attempt r k = Inr y \<longleftrightarrow> (\<exists>x. r = Inr x \<and> k x = Inr y)"
  by (cases r) auto

lemma attempt_Inl_iff:
  "attempt r k = Inl e \<longleftrightarrow> r = Inl e \<or> (\<exists>x. r = Inr x \<and> k x = Inl e)"
  by (cases r) auto

lemma attempt_assoc: "attempt (attempt r f) g = attempt r (\<lambda>x. attempt (f x) g)"
  by (cases r) auto

lemma attempt_cong:
  "r = r' \<Longrightarrow> (\<And>x. r' = Inr x \<Longrightarrow> k x = k' x) \<Longrightarrow> attempt r k = attempt r' k'"
  by (cases r') auto

text \<open>Whether a call succeeded, and the error of a check that returns only an error.\<close>

definition succeeds :: "('e, 'a) result \<Rightarrow> bool" where
  "succeeds r = (case r of Inl _ \<Rightarrow> False | Inr _ \<Rightarrow> True)"

lemma succeeds_simps [simp]: "succeeds (Inr x)" "\<not> succeeds (Inl e)"
  by (simp_all add: succeeds_def)

lemma succeeds_iff: "succeeds r \<longleftrightarrow> (\<exists>x. r = Inr x)"
  by (cases r) auto

text \<open>\<open>if bad { return err }\<close>.\<close>

definition refuse :: "bool \<Rightarrow> 'e \<Rightarrow> ('e, unit) result" where
  "refuse bad e = (if bad then Inl e else Inr ())"

lemma refuse_Inr_iff [simp]: "refuse bad e = Inr u \<longleftrightarrow> \<not> bad"
  by (simp add: refuse_def)

lemma refuse_Inl_iff [simp]: "refuse bad e = Inl e' \<longleftrightarrow> bad \<and> e' = e"
  by (auto simp: refuse_def)

lemma attempt_refuse: "attempt (refuse bad e) k = (if bad then Inl e else k ())"
  by (simp add: refuse_def)

lemmas attempt_iffs = attempt_Inr_iff attempt_Inl_iff

text \<open>Mapping a fallible function over a list, stopping at the first error.\<close>

fun traverse :: "('a \<Rightarrow> ('e, 'b) result) \<Rightarrow> 'a list \<Rightarrow> ('e, 'b list) result" where
  "traverse f [] = Inr []"
| "traverse f (x # xs) = attempt (f x) (\<lambda>y. attempt (traverse f xs) (\<lambda>ys. Inr (y # ys)))"

lemma traverse_Inr_iff: "traverse f xs = Inr ys \<longleftrightarrow> list_all2 (\<lambda>x y. f x = Inr y) xs ys"
  by (induction xs arbitrary: ys) (auto simp: attempt_Inr_iff list_all2_Cons1)

lemma traverse_append:
  "traverse f (xs @ ys) =
     attempt (traverse f xs) (\<lambda>us. attempt (traverse f ys) (\<lambda>vs. Inr (us @ vs)))"
  by (induction xs) (auto simp: attempt_assoc intro!: attempt_cong; cases "traverse f ys"; simp)+

text \<open>A fallible function that also acts on a world, and the same early return for it.\<close>

type_synonym ('w, 'e, 'a) action = "'w \<Rightarrow> ('e, 'a) result \<times> 'w"

definition attempt_in :: "('w, 'e, 'a) action \<Rightarrow> ('a \<Rightarrow> ('w, 'e, 'b) action) \<Rightarrow> ('w, 'e, 'b) action" where
  "attempt_in act k w =
     (case act w of
        (Inl e, w') \<Rightarrow> (Inl e, w')
      | (Inr x, w') \<Rightarrow> k x w')"

definition give :: "('e, 'a) result \<Rightarrow> ('w, 'e, 'a) action" where
  "give r w = (r, w)"

lemma give_simps [simp]: "fst (give r w) = r" "snd (give r w) = w"
  by (simp_all add: give_def)

text \<open>What holds of the world after an action and after its continuation holds after both.\<close>

lemma attempt_in_inv:
  "P (snd (act w)) \<Longrightarrow> (\<And>x w'. act w = (Inr x, w') \<Longrightarrow> P w' \<Longrightarrow> P (snd (k x w'))) \<Longrightarrow> P (snd (attempt_in act k w))"
  by (cases "act w"; cases "fst (act w)") (auto simp: attempt_in_def)

lemma attempt_in_give: "attempt_in (give r) k w = (case r of Inl e \<Rightarrow> (Inl e, w) | Inr x \<Rightarrow> k x w)"
  by (simp add: attempt_in_def give_def split: sum.split)

lemma attempt_in_finish:
  "snd (attempt_in act (\<lambda>x. give (f x)) w) = snd (act w)"
  by (cases "act w"; cases "fst (act w)") (auto simp: attempt_in_def give_def)

section \<open>Integers\<close>

text \<open>Go's integer division truncates towards zero.\<close>

definition quot :: "int \<Rightarrow> int \<Rightarrow> int" where
  "quot a b = sgn a * sgn b * (\<bar>a\<bar> div \<bar>b\<bar>)"

lemma quot_nonneg: "0 \<le> a \<Longrightarrow> 0 < b \<Longrightarrow> quot a b = a div b"
  by (cases "a = 0") (simp_all add: quot_def)

section \<open>Lists\<close>

lemma list_all2_right_ex: "list_all2 P xs ys \<Longrightarrow> y \<in> set ys \<Longrightarrow> \<exists>x\<in>set xs. P x y"
  by (induction rule: list_all2_induct) auto

lemma list_all2_left_ex: "list_all2 P xs ys \<Longrightarrow> x \<in> set xs \<Longrightarrow> \<exists>y\<in>set ys. P x y"
  by (induction rule: list_all2_induct) auto

lemma dropWhile_id: "(xs \<noteq> [] \<Longrightarrow> \<not> P (hd xs)) \<Longrightarrow> dropWhile P xs = xs"
  by (cases xs) auto

section \<open>Finite tables\<close>

text \<open>
  A Go map with a bounded number of entries is a \<open>mapping\<close>; its size is the number of keys.
\<close>

lemma size_keys: "Mapping.size m = card (Mapping.keys m)"
  by (simp add: Mapping.size_def)

lemma keys_lookup: "k \<in> Mapping.keys m \<longleftrightarrow> Mapping.lookup m k \<noteq> None"
  by transfer auto

lemma keys_filter_subset: "Mapping.keys (Mapping.filter P m) \<subseteq> Mapping.keys m"
  by transfer (auto split: option.splits if_splits)

lemma lookup_update_if:
  "Mapping.lookup (Mapping.update k v m) k' = (if k' = k then Some v else Mapping.lookup m k')"
  by transfer auto

lemma lookup_delete_if:
  "Mapping.lookup (Mapping.delete k m) k' = (if k' = k then None else Mapping.lookup m k')"
  by transfer auto

lemma lookup_filter_Some:
  "Mapping.lookup (Mapping.filter P m) k = Some v \<longleftrightarrow> Mapping.lookup m k = Some v \<and> P k v"
  by transfer (auto split: option.splits if_splits)

lemmas table_lookups = lookup_update_if lookup_delete_if lookup_filter_Some

end
