(* ===== verification/Go_Strings.thy ===== *)
theory Go_Strings
  imports Prelude
begin

text \<open>
  What the program uses of Go's \<open>strings\<close>, \<open>bytes\<close> and \<open>strconv\<close>. A Go string is a sequence of
  bytes, so it is a \<^typ>\<open>string\<close> here, one \<^typ>\<open>char\<close> per byte, and \<open>length\<close> is Go's \<open>len\<close>.
  \<open>TrimSpace\<close> recognises the UTF-8 encodings of every rune \<open>unicode.IsSpace\<close> accepts.
  \<open>ToLower\<close> is exact on ASCII strings; on a string with a byte above 127 it consults the
  Unicode case tables, which are data of the Go distribution and come in as the argument \<open>lo\<close>.
\<close>

section \<open>Bytes\<close>

definition byte :: "char \<Rightarrow> nat" where
  "byte c = of_char c"

definition is_digit :: "char \<Rightarrow> bool" where
  "is_digit c \<longleftrightarrow> 48 \<le> byte c \<and> byte c \<le> 57"

definition is_lower :: "char \<Rightarrow> bool" where
  "is_lower c \<longleftrightarrow> 97 \<le> byte c \<and> byte c \<le> 122"

definition is_upper :: "char \<Rightarrow> bool" where
  "is_upper c \<longleftrightarrow> 65 \<le> byte c \<and> byte c \<le> 90"

definition ascii_lower :: "char \<Rightarrow> char" where
  "ascii_lower c = (if is_upper c then char_of (byte c + 32) else c)"

definition is_ascii :: "string \<Rightarrow> bool" where
  "is_ascii s \<longleftrightarrow> list_all (\<lambda>c. byte c < 128) s"

text \<open>A visible ASCII byte: neither a space, nor a control, nor part of a longer rune.\<close>

definition is_graph :: "char \<Rightarrow> bool" where
  "is_graph c \<longleftrightarrow> 33 \<le> byte c \<and> byte c \<le> 126"

lemma byte_char_of [simp]: "byte (char_of (n::nat)) = n mod 256"
  by (simp add: byte_def)

lemma byte_less [simp]: "byte c < 256"
  by (simp add: byte_def)

lemma byte_inj: "byte c = byte d \<longleftrightarrow> c = d"
  by (simp add: byte_def)

lemma digit_graph: "is_digit c \<Longrightarrow> is_graph c"
  by (simp add: is_digit_def is_graph_def)

lemma lower_graph: "is_lower c \<Longrightarrow> is_graph c"
  by (simp add: is_lower_def is_graph_def)

lemma ascii_lower_idem [simp]: "ascii_lower (ascii_lower c) = ascii_lower c"
  by (auto simp: ascii_lower_def is_upper_def)

lemma ascii_lower_byte [simp]: "byte (ascii_lower c) < 128 \<longleftrightarrow> byte c < 128"
  by (auto simp: ascii_lower_def is_upper_def)

section \<open>strings\<close>

definition HasPrefix :: "string \<Rightarrow> string \<Rightarrow> bool" where
  "HasPrefix s p \<longleftrightarrow> take (length p) s = p"

definition HasSuffix :: "string \<Rightarrow> string \<Rightarrow> bool" where
  "HasSuffix s p \<longleftrightarrow> HasPrefix (rev s) (rev p)"

definition TrimPrefix :: "string \<Rightarrow> string \<Rightarrow> string" where
  "TrimPrefix s p = (if HasPrefix s p then drop (length p) s else s)"

definition TrimSuffix :: "string \<Rightarrow> string \<Rightarrow> string" where
  "TrimSuffix s p = (if HasSuffix s p then take (length s - length p) s else s)"

text \<open>\<open>strings.ContainsAny(s, cutset)\<close> for an ASCII cutset.\<close>

definition ContainsAny :: "string \<Rightarrow> string \<Rightarrow> bool" where
  "ContainsAny s cs \<longleftrightarrow> list_ex (\<lambda>c. c \<in> set cs) s"

text \<open>\<open>strings.Trim(s, cutset)\<close> for an ASCII cutset.\<close>

definition Trim :: "string \<Rightarrow> string \<Rightarrow> string" where
  "Trim s cs = rev (dropWhile (\<lambda>c. c \<in> set cs) (rev (dropWhile (\<lambda>c. c \<in> set cs) s)))"

text \<open>\<open>strings.Split\<close>, \<open>strings.SplitSeq\<close> and \<open>strings.Cut\<close> at a one-byte separator.\<close>

fun SplitByte :: "char \<Rightarrow> string \<Rightarrow> string list" where
  "SplitByte c [] = [[]]"
| "SplitByte c (x # xs) =
     (if x = c then [] # SplitByte c xs
      else (case SplitByte c xs of [] \<Rightarrow> [[x]] | w # ws \<Rightarrow> (x # w) # ws))"

fun CutByte :: "char \<Rightarrow> string \<Rightarrow> string \<times> string \<times> bool" where
  "CutByte c [] = ([], [], False)"
| "CutByte c (x # xs) =
     (if x = c then ([], xs, True)
      else (case CutByte c xs of (a, b, found) \<Rightarrow> (x # a, b, found)))"

lemma HasPrefix_append [simp]: "HasPrefix (p @ s) p"
  by (simp add: HasPrefix_def)

lemma HasPrefix_iff: "HasPrefix s p \<longleftrightarrow> (\<exists>t. s = p @ t)"
  by (metis HasPrefix_append HasPrefix_def append_take_drop_id)

lemma HasSuffix_iff: "HasSuffix s p \<longleftrightarrow> (\<exists>t. s = t @ p)"
  by (metis HasPrefix_iff HasSuffix_def rev_append rev_rev_ident)

lemma ContainsAny_iff: "ContainsAny s cs \<longleftrightarrow> set s \<inter> set cs \<noteq> {}"
  by (auto simp: ContainsAny_def list_ex_iff)

lemma SplitByte_ne [simp]: "SplitByte c s \<noteq> []"
  by (cases "(c, s)" rule: SplitByte.cases) (auto split: list.splits)

lemma SplitByte_no_sep: "w \<in> set (SplitByte c s) \<Longrightarrow> c \<notin> set w"
  by (induction s arbitrary: w) (auto split: list.splits if_splits)

lemma SplitByte_absent: "c \<notin> set s \<Longrightarrow> SplitByte c s = [s]"
  by (induction s) auto

lemma SplitByte_append:
  "c \<notin> set u \<Longrightarrow> SplitByte c (u @ c # v) = u # SplitByte c v"
  by (induction u) auto

lemma SplitByte_set: "w \<in> set (SplitByte c s) \<Longrightarrow> set w \<subseteq> set s"
  by (induction s arbitrary: w) (fastforce split: list.splits if_splits)+

text \<open>Joining what was split gives the string back.\<close>

fun JoinByte :: "char \<Rightarrow> string list \<Rightarrow> string" where
  "JoinByte c [] = []"
| "JoinByte c [w] = w"
| "JoinByte c (w # ws) = w @ c # JoinByte c ws"

lemma JoinByte_Cons: "ws \<noteq> [] \<Longrightarrow> JoinByte c (w # ws) = w @ c # JoinByte c ws"
  by (cases ws) auto

lemma JoinByte_SplitByte: "JoinByte c (SplitByte c s) = s"
proof (induction s)
  case Nil
  then show ?case by simp
next
  case (Cons x xs)
  obtain w ws where ws: "SplitByte c xs = w # ws"
    using SplitByte_ne by (cases "SplitByte c xs") auto
  show ?case
  proof (cases "x = c")
    case True
    then show ?thesis using Cons.IH by (simp add: JoinByte_Cons)
  next
    case False
    then show ?thesis using Cons.IH ws by (cases ws) auto
  qed
qed

lemma SplitByte_JoinByte:
  "ws \<noteq> [] \<Longrightarrow> (\<forall>w\<in>set ws. c \<notin> set w) \<Longrightarrow> SplitByte c (JoinByte c ws) = ws"
  by (induction c ws rule: JoinByte.induct)
    (auto simp: SplitByte_absent SplitByte_append JoinByte_Cons)

lemma CutByte_absent: "c \<notin> set s \<Longrightarrow> CutByte c s = (s, [], False)"
  by (induction s) auto

lemma CutByte_append: "c \<notin> set u \<Longrightarrow> CutByte c (u @ c # v) = (u, v, True)"
  by (induction u) auto

lemma CutByte_cases:
  "CutByte c s = (u, v, found) \<Longrightarrow>
     c \<notin> set u \<and> (if found then s = u @ c # v else s = u \<and> v = [])"
  by (induction s arbitrary: u v found) (auto split: prod.splits if_splits)

section \<open>strings.TrimSpace and strings.ToLower\<close>

text \<open>The UTF-8 encodings of the runes \<open>unicode.IsSpace\<close> accepts.\<close>

definition space_runes :: "string list" where
  "space_runes =
     map (\<lambda>bs. map char_of (bs :: nat list))
       ([[9], [10], [11], [12], [13], [32], [0xC2, 0x85], [0xC2, 0xA0], [0xE1, 0x9A, 0x80],
         [0xE2, 0x80, 0xA8], [0xE2, 0x80, 0xA9], [0xE2, 0x80, 0xAF], [0xE2, 0x81, 0x9F],
         [0xE3, 0x80, 0x80]] @ map (\<lambda>b. [0xE2, 0x80, b]) [0x80..<0x8B])"

function strip_leading :: "string list \<Rightarrow> string \<Rightarrow> string" where
  "strip_leading es s =
     (case find (\<lambda>e. e \<noteq> [] \<and> HasPrefix s e) es of
        None \<Rightarrow> s
      | Some e \<Rightarrow> strip_leading es (drop (length e) s))"
  by pat_completeness auto
termination
proof (relation "measure (\<lambda>(es, s). length s)", simp)
  fix es :: "string list" and s e
  assume "find (\<lambda>e. e \<noteq> [] \<and> HasPrefix s e) es = Some e"
  then have "e \<noteq> []" "HasPrefix s e" by (auto simp: find_Some_iff)
  then show "((es, drop (length e) s), (es, s)) \<in> measure (\<lambda>(es, s). length s)"
    by (auto simp: HasPrefix_iff)
qed

declare strip_leading.simps [simp del]

definition TrimSpace :: "string \<Rightarrow> string" where
  "TrimSpace s = rev (strip_leading (map rev space_runes) (rev (strip_leading space_runes s)))"

definition ToLower :: "(string \<Rightarrow> string) \<Rightarrow> string \<Rightarrow> string" where
  "ToLower lo s = (if is_ascii s then map ascii_lower s else lo s)"

lemma strip_leading_id:
  "\<forall>e\<in>set es. e \<noteq> [] \<longrightarrow> \<not> HasPrefix s e \<Longrightarrow> strip_leading es s = s"
  by (subst strip_leading.simps) (auto split: option.splits simp: find_Some_iff)

lemma strip_leading_suffix: "\<exists>p. s = p @ strip_leading es s"
proof (induction es s rule: strip_leading.induct)
  case (1 es s)
  show ?case
  proof (cases "find (\<lambda>e. e \<noteq> [] \<and> HasPrefix s e) es")
    case None
    then show ?thesis by (subst strip_leading.simps) simp
  next
    case (Some e)
    then obtain t where s: "s = e @ t" by (auto simp: find_Some_iff HasPrefix_iff)
    from 1 [OF Some] obtain p where "t = p @ strip_leading es t" by (auto simp: s)
    then have "s = (e @ p) @ strip_leading es s"
      using Some by (subst strip_leading.simps) (simp add: s)
    then show ?thesis ..
  qed
qed

lemma set_TrimSpace: "set (TrimSpace s) \<subseteq> set s"
proof -
  obtain p where p: "s = p @ strip_leading space_runes s"
    using strip_leading_suffix by blast
  obtain q where q: "rev (strip_leading space_runes s) =
      q @ strip_leading (map rev space_runes) (rev (strip_leading space_runes s))"
    using strip_leading_suffix by blast
  have "set (TrimSpace s) \<subseteq> set (rev (strip_leading space_runes s))"
    by (subst q) (simp add: TrimSpace_def)
  also have "\<dots> \<subseteq> set s"
    by (subst (2) p) auto
  finally show ?thesis .
qed

lemma space_runes_not_graph:
  "e \<in> set space_runes \<Longrightarrow> e \<noteq> [] \<and> (\<forall>c\<in>set e. \<not> is_graph c)"
  unfolding space_runes_def by (auto simp: is_graph_def)

lemma graph_no_prefix:
  assumes "list_all is_graph s" "e \<in> set space_runes"
  shows "\<not> HasPrefix s e" "\<not> HasPrefix s (rev e)"
proof -
  have e: "e \<noteq> []" "\<forall>c\<in>set e. \<not> is_graph c"
    using space_runes_not_graph [OF assms(2)] by auto
  with assms(1) show "\<not> HasPrefix s e"
    by (cases e) (auto simp: HasPrefix_iff)
  from e assms(1) have "\<not> HasPrefix s f" if "set f = set e" for f
    using that by (cases f) (auto simp: HasPrefix_iff)
  then show "\<not> HasPrefix s (rev e)" by simp
qed

text \<open>A string of visible ASCII bytes has nothing to trim.\<close>

lemma TrimSpace_graph: "list_all is_graph s \<Longrightarrow> TrimSpace s = s"
proof -
  assume s: "list_all is_graph s"
  have "strip_leading space_runes s = s"
    by (rule strip_leading_id) (use graph_no_prefix(1) [OF s] in blast)
  moreover have "list_all is_graph (rev s)" using s by (simp add: list_all_iff)
  then have "strip_leading (map rev space_runes) (rev s) = rev s"
    by (intro strip_leading_id) (use graph_no_prefix(2) in auto)
  ultimately show ?thesis by (simp add: TrimSpace_def)
qed

lemma TrimSpace_Nil [simp]: "TrimSpace [] = []"
  by (rule TrimSpace_graph) simp

lemma is_ascii_set: "is_ascii s \<longleftrightarrow> (\<forall>c\<in>set s. byte c < 128)"
  by (simp add: is_ascii_def list_all_iff)

lemma graph_ascii: "list_all is_graph s \<Longrightarrow> is_ascii s"
  by (auto simp: list_all_iff is_ascii_set is_graph_def)

lemma Trim_id:
  "\<forall>c\<in>set cs. c \<notin> set s \<Longrightarrow> Trim s cs = s"
  by (auto simp: Trim_def dropWhile_eq_self_iff) (metis dropWhile_id hd_in_set rev_rev_ident set_rev)

end
