(* ===== verification/Go_Strconv.thy ===== *)
theory Go_Strconv
  imports Go_Strings
begin

text \<open>
  What the program uses of Go's \<open>strconv\<close>: \<open>Atoi\<close> and \<open>Itoa\<close> on 64-bit \<open>int\<close>, \<open>ParseBool\<close>, and the
  digit strings that printing an address needs, in base 10 and base 16.
\<close>

section \<open>Digits\<close>

definition digit_char :: "nat \<Rightarrow> char" where
  "digit_char d = char_of (if d < 10 then 48 + d else 87 + d)"

definition digit_val :: "char \<Rightarrow> nat option" where
  "digit_val c =
     (if is_digit c then Some (byte c - 48)
      else if 97 \<le> byte c \<and> byte c \<le> 102 then Some (byte c - 87)
      else if 65 \<le> byte c \<and> byte c \<le> 70 then Some (byte c - 55)
      else None)"

lemma digit_val_char: "d < 16 \<Longrightarrow> digit_val (digit_char d) = Some d"
  by (auto simp: digit_val_def digit_char_def is_digit_def)

lemma is_digit_digit_char: "d < 16 \<Longrightarrow> is_digit (digit_char d) \<longleftrightarrow> d < 10"
  by (auto simp: digit_char_def is_digit_def)

lemma byte_digit_char: "d < 10 \<Longrightarrow> byte (digit_char d) = 48 + d"
  by (simp add: digit_char_def)

lemma digit_char_graph: "d < 16 \<Longrightarrow> is_graph (digit_char d)"
  by (auto simp: digit_char_def is_graph_def)

text \<open>The digits of a number in base \<open>b\<close>, most significant first, no leading zero.\<close>

function digits :: "nat \<Rightarrow> nat \<Rightarrow> string" where
  "digits b n =
     (if b < 2 \<or> n < b then [digit_char n] else digits b (n div b) @ [digit_char (n mod b)])"
  by pat_completeness auto
termination
  by (relation "measure snd") (auto intro: div_less_dividend)

declare digits.simps [simp del]

definition nat_value :: "nat \<Rightarrow> string \<Rightarrow> nat" where
  "nat_value b s = foldl (\<lambda>v c. v * b + (case digit_val c of None \<Rightarrow> 0 | Some d \<Rightarrow> d)) 0 s"

lemma nat_value_snoc:
  "nat_value b (s @ [c]) = nat_value b s * b + (case digit_val c of None \<Rightarrow> 0 | Some d \<Rightarrow> d)"
  by (simp add: nat_value_def)

lemma nat_value_Nil [simp]: "nat_value b [] = 0"
  by (simp add: nat_value_def)

lemma nat_value_single: "nat_value b [c] = (case digit_val c of None \<Rightarrow> 0 | Some d \<Rightarrow> d)"
  by (simp add: nat_value_def)

lemma digits_ne [simp]: "digits b n \<noteq> []"
  by (subst digits.simps) simp

lemma nat_value_digits:
  assumes "2 \<le> b" "b \<le> 16"
  shows "nat_value b (digits b n) = n"
proof (induction n rule: less_induct)
  case (less n)
  show ?case
  proof (cases "n < b")
    case True
    then show ?thesis using assms
      by (subst digits.simps) (simp add: nat_value_single digit_val_char)
  next
    case False
    then have "n div b < n" using assms by (intro div_less_dividend) auto
    with less have "nat_value b (digits b (n div b)) = n div b" by simp
    moreover have "n mod b < 16" using assms less_le_trans [of "n mod b" b 16] by simp
    ultimately show ?thesis using False assms
      by (subst digits.simps) (simp add: nat_value_snoc digit_val_char)
  qed
qed

lemma digits_chars:
  "2 \<le> b \<Longrightarrow> b \<le> 16 \<Longrightarrow> c \<in> set (digits b n) \<Longrightarrow> \<exists>d<b. c = digit_char d"
proof (induction n rule: less_induct)
  case (less n)
  show ?case
  proof (cases "n < b")
    case True
    with less.prems show ?thesis by (subst (asm) digits.simps) auto
  next
    case False
    with less.prems have "n div b < n" by (intro div_less_dividend) auto
    moreover have "c \<in> set (digits b (n div b)) \<or> c = digit_char (n mod b)"
      using less.prems False by (subst (asm) digits.simps) auto
    moreover have "n mod b < b" using less.prems by simp
    ultimately show ?thesis using less by blast
  qed
qed

lemma digits_10_digit: "c \<in> set (digits 10 n) \<Longrightarrow> is_digit c"
  using digits_chars [of 10 c n] by (auto simp: is_digit_digit_char)

lemma digits_length: "2 \<le> b \<Longrightarrow> n < b ^ k \<Longrightarrow> 0 < k \<Longrightarrow> length (digits b n) \<le> k"
proof (induction k arbitrary: n)
  case 0
  then show ?case by simp
next
  case (Suc k)
  show ?case
  proof (cases "n < b")
    case True
    then show ?thesis by (subst digits.simps) simp
  next
    case False
    with Suc.prems have k: "0 < k" by (cases k) auto
    have "n div b < b ^ k" using Suc.prems by (auto simp: less_mult_imp_div_less mult.commute)
    with Suc k have "length (digits b (n div b)) \<le> k" by simp
    with False Suc.prems show ?thesis by (subst digits.simps) simp
  qed
qed

text \<open>No number but zero is printed with a leading zero.\<close>

lemma digits_leading_zero:
  "2 \<le> b \<Longrightarrow> b \<le> 16 \<Longrightarrow> hd (digits b n) = digit_char 0 \<Longrightarrow> n = 0"
proof (induction n rule: less_induct)
  case (less n)
  show ?case
  proof (cases "n < b")
    case True
    with less.prems have "digit_char n = digit_char 0" "n < 16" by (subst (asm) digits.simps, simp)+
    then show ?thesis by (metis digit_val_char option.inject zero_less_numeral)
  next
    case False
    with less.prems have lt: "n div b < n" by (intro div_less_dividend) auto
    have "hd (digits b (n div b)) = digit_char 0"
      using less.prems False by (subst (asm) digits.simps) simp
    with less lt have "n div b = 0" by blast
    with False less.prems show ?thesis by (simp add: div_eq_0_iff)
  qed
qed

section \<open>Atoi and Itoa\<close>

definition min_int :: int where "min_int = - (2 ^ 63)"
definition max_int :: int where "max_int = 2 ^ 63 - 1"

definition parse_digits :: "string \<Rightarrow> nat option" where
  "parse_digits s = (if s \<noteq> [] \<and> list_all is_digit s then Some (nat_value 10 s) else None)"

text \<open>\<open>None\<close> is any of \<open>strconv\<close>'s errors: bad syntax, or out of the range of a 64-bit \<open>int\<close>.\<close>

definition Atoi :: "string \<Rightarrow> int option" where
  "Atoi s =
     (let (neg, ds) = (case s of
            [] \<Rightarrow> (False, [])
          | c # cs \<Rightarrow> if c = CHR ''-'' then (True, cs)
                      else if c = CHR ''+'' then (False, cs) else (False, s))
      in case parse_digits ds of
           None \<Rightarrow> None
         | Some n \<Rightarrow>
             let v = (if neg then - int n else int n)
             in if min_int \<le> v \<and> v \<le> max_int then Some v else None)"

definition Itoa :: "int \<Rightarrow> string" where
  "Itoa v = (if v < 0 then CHR ''-'' # digits 10 (nat (- v)) else digits 10 (nat v))"

lemma Atoi_range: "Atoi s = Some v \<Longrightarrow> min_int \<le> v \<and> v \<le> max_int"
  by (auto simp: Atoi_def Let_def split: prod.splits option.splits if_splits)

lemma parse_digits_digits: "parse_digits (digits 10 n) = Some n"
  by (auto simp: parse_digits_def list_all_iff digits_10_digit nat_value_digits)

lemma digits_10_not_sign: "digits 10 n = c # cs \<Longrightarrow> c \<noteq> CHR ''-'' \<and> c \<noteq> CHR ''+''"
  using digits_10_digit [of c n] by (auto simp: is_digit_def byte_def)

lemma Atoi_Itoa: "min_int \<le> v \<Longrightarrow> v \<le> max_int \<Longrightarrow> Atoi (Itoa v) = Some v"
proof (cases "v < 0")
  case True
  assume "min_int \<le> v" "v \<le> max_int"
  with True show ?thesis by (simp add: Atoi_def Itoa_def parse_digits_digits)
next
  case False
  assume "min_int \<le> v" "v \<le> max_int"
  moreover obtain c cs where "digits 10 (nat v) = c # cs"
    using digits_ne by (cases "digits 10 (nat v)") auto
  ultimately show ?thesis using False digits_10_not_sign parse_digits_digits [of "nat v"]
    by (auto simp: Atoi_def Itoa_def)
qed

section \<open>ParseBool\<close>

definition ParseBool :: "string \<Rightarrow> bool option" where
  "ParseBool s =
     (if s \<in> set [''1'', ''t'', ''T'', ''true'', ''TRUE'', ''True''] then Some True
      else if s \<in> set [''0'', ''f'', ''F'', ''false'', ''FALSE'', ''False''] then Some False
      else None)"

end
