(* ===== verification/Go_Net.thy ===== *)
theory Go_Net
  imports Go_Strconv "HOL-Library.Word"
begin

text \<open>
  What the program uses of Go's \<open>net\<close> and \<open>net/netip\<close>: parsing and printing addresses, prefixes,
  and \<open>host:port\<close> strings. An address is a \<^typ>\<open>32 word\<close> or a \<^typ>\<open>128 word\<close> with a zone (empty for
  none), as \<open>netip.Addr\<close> holds it; \<open>net.IP\<close> is always used in its 16-byte form. The theory
  \<open>Go_Net_Canon\<close> proves that parsing inverts printing.
\<close>

unbundle bit_operations_syntax

section \<open>Numbers as fixed-length lists of digits\<close>

definition of_base :: "nat \<Rightarrow> nat list \<Rightarrow> nat" where
  "of_base B ds = foldl (\<lambda>a d. a * B + d) 0 ds"

fun to_base :: "nat \<Rightarrow> nat \<Rightarrow> nat \<Rightarrow> nat list" where
  "to_base B 0 v = []"
| "to_base B (Suc n) v = to_base B n (v div B) @ [v mod B]"

lemma of_base_snoc [simp]: "of_base B (ds @ [d]) = of_base B ds * B + d"
  by (simp add: of_base_def)

lemma length_to_base [simp]: "length (to_base B n v) = n"
  by (induction n arbitrary: v) auto

lemma to_base_less: "0 < B \<Longrightarrow> d \<in> set (to_base B n v) \<Longrightarrow> d < B"
  by (induction n arbitrary: v) auto

lemma of_base_to_base: "v < B ^ n \<Longrightarrow> of_base B (to_base B n v) = v"
  by (induction n arbitrary: v) (auto simp: of_base_def less_mult_imp_div_less mult.commute)

lemma of_base_bound: "\<forall>d\<in>set ds. d < B \<Longrightarrow> of_base B ds < B ^ length ds"
proof (induction ds rule: rev_induct)
  case Nil
  then show ?case by (simp add: of_base_def)
next
  case (snoc d ds)
  then have "of_base B ds + 1 \<le> B ^ length ds" "d < B" by auto
  then have "(of_base B ds + 1) * B \<le> B ^ length ds * B" by (intro mult_le_mono1)
  with \<open>d < B\<close> show ?case by (simp add: algebra_simps)
qed

lemma to_base_of_base: "\<forall>d\<in>set ds. d < B \<Longrightarrow> to_base B (length ds) (of_base B ds) = ds"
  by (induction ds rule: rev_induct) auto

section \<open>netip.ParseAddr\<close>

datatype Addr = Addr4 "32 word" | Addr6 "128 word" string

text \<open>
  \<open>parseIPv4Fields\<close>: the value of the current octet, how many digits it has, the octets already
  read. A dot is refused where no digit precedes or nothing follows it.
\<close>

fun ipv4_fields :: "string \<Rightarrow> nat \<Rightarrow> nat \<Rightarrow> nat list \<Rightarrow> nat list option" where
  "ipv4_fields [] val digLen fields = (if length fields < 3 then None else Some (fields @ [val]))"
| "ipv4_fields (c # cs) val digLen fields =
     (if is_digit c then
        if digLen = 1 \<and> val = 0 then None
        else if val * 10 + (byte c - 48) > 255 then None
        else ipv4_fields cs (val * 10 + (byte c - 48)) (digLen + 1) fields
      else if c = CHR ''.'' then
        if digLen = 0 \<or> cs = [] then None
        else if length fields = 3 then None
        else ipv4_fields cs 0 0 (fields @ [val])
      else None)"

definition parseIPv4 :: "string \<Rightarrow> Addr option" where
  "parseIPv4 s = map_option (\<lambda>fs. Addr4 (of_nat (of_base 256 fs))) (ipv4_fields s 0 0 [])"

text \<open>One group of at most four hexadecimal digits: how many, their value, the rest.\<close>

fun hex_group :: "nat \<Rightarrow> nat \<Rightarrow> string \<Rightarrow> (nat \<times> nat \<times> string) option" where
  "hex_group off acc [] = Some (off, acc, [])"
| "hex_group off acc (c # cs) =
     (case digit_val c of
        None \<Rightarrow> Some (off, acc, c # cs)
      | Some d \<Rightarrow> if off > 3 then None else hex_group (off + 1) (acc * 16 + d) cs)"

text \<open>
  The loop of \<open>parseIPv6\<close>: the groups read so far and where the \<open>::\<close> was. Its index \<open>i\<close> counts
  bytes, so it is twice the number of groups.
\<close>

function ipv6_groups :: "string \<Rightarrow> nat list \<Rightarrow> nat option \<Rightarrow> (nat list \<times> nat option) option" where
  "ipv6_groups s gs ellipsis =
     (if 8 \<le> length gs then (if s = [] then Some (gs, ellipsis) else None)
      else case hex_group 0 0 s of
        None \<Rightarrow> None
      | Some (off, acc, rest) \<Rightarrow>
          if off = 0 then None
          else if rest \<noteq> [] \<and> hd rest = CHR ''.'' then
            if ellipsis = None \<and> length gs \<noteq> 6 then None
            else if 8 < length gs + 2 then None
            else map_option
              (\<lambda>f. (gs @ [of_base 256 (take 2 f), of_base 256 (drop 2 f)], ellipsis))
              (ipv4_fields s 0 0 [])
          else if rest = [] then Some (gs @ [acc], ellipsis)
          else if hd rest \<noteq> CHR '':'' then None
          else if tl rest = [] then None
          else if hd (tl rest) = CHR '':'' then
            if ellipsis \<noteq> None then None
            else if tl (tl rest) = [] then Some (gs @ [acc], Some (length gs + 1))
            else ipv6_groups (tl (tl rest)) (gs @ [acc]) (Some (length gs + 1))
          else ipv6_groups (tl rest) (gs @ [acc]) ellipsis)"
  by pat_completeness auto
termination
  by (relation "measure (\<lambda>(s, gs, ellipsis). 8 - length gs)") auto

declare ipv6_groups.simps [simp del]

definition expand_ellipsis :: "nat list \<times> nat option \<Rightarrow> nat list option" where
  "expand_ellipsis r =
     (case r of
        (gs, None) \<Rightarrow> if length gs < 8 then None else Some gs
      | (gs, Some e) \<Rightarrow>
          if length gs < 8 then Some (take e gs @ replicate (8 - length gs) 0 @ drop e gs)
          else None)"

definition addr6_of :: "nat list \<Rightarrow> 128 word" where
  "addr6_of gs = of_nat (of_base 65536 gs)"

definition parseIPv6 :: "string \<Rightarrow> Addr option" where
  "parseIPv6 input =
     (case CutByte (CHR ''%'') input of (s, zone, found) \<Rightarrow>
        if found \<and> zone = [] then None
        else if s = ''::'' then Some (Addr6 0 zone)
        else
          (let r = (if HasPrefix s ''::'' then ipv6_groups (drop 2 s) [] (Some 0)
                    else ipv6_groups s [] None)
           in map_option (\<lambda>gs. Addr6 (addr6_of gs) zone) (Option.bind r expand_ellipsis)))"

definition ParseAddr :: "string \<Rightarrow> Addr option" where
  "ParseAddr s =
     (case find (\<lambda>c. c = CHR ''.'' \<or> c = CHR '':'' \<or> c = CHR ''%'') s of
        None \<Rightarrow> None
      | Some c \<Rightarrow>
          if c = CHR ''.'' then parseIPv4 s
          else if c = CHR '':'' then parseIPv6 s
          else None)"

section \<open>Printing and mapping addresses\<close>

definition is4in6 :: "128 word \<Rightarrow> bool" where
  "is4in6 w \<longleftrightarrow> drop_bit 32 w = 0xFFFF"

definition mapped4 :: "32 word \<Rightarrow> 128 word" where
  "mapped4 w = push_bit 32 0xFFFF OR ucast w"

fun Unmap :: "Addr \<Rightarrow> Addr" where
  "Unmap (Addr4 w) = Addr4 w"
| "Unmap (Addr6 w zone) = (if is4in6 w then Addr4 (ucast w) else Addr6 w zone)"

fun Zone :: "Addr \<Rightarrow> string" where
  "Zone (Addr4 w) = []"
| "Zone (Addr6 w zone) = zone"

definition string4 :: "32 word \<Rightarrow> string" where
  "string4 w = JoinByte (CHR ''.'') (map (digits 10) (to_base 256 4 (unat w)))"

definition groups6 :: "128 word \<Rightarrow> nat list" where
  "groups6 w = to_base 65536 8 (unat w)"

text \<open>The first of the longest runs of two or more zero groups, \<open>(255, 255)\<close> if there is none.\<close>

definition zero_len :: "nat list \<Rightarrow> nat \<Rightarrow> nat" where
  "zero_len gs i = length (takeWhile (\<lambda>g. g = 0) (drop i gs))"

definition zero_run :: "nat list \<Rightarrow> nat \<times> nat" where
  "zero_run gs =
     foldl (\<lambda>(s, e) i. if 2 \<le> zero_len gs i \<and> e - s < zero_len gs i
                       then (i, i + zero_len gs i) else (s, e))
       (255, 255) [0..<8]"

definition string6 :: "128 word \<Rightarrow> string" where
  "string6 w =
     (let gs = groups6 w; hex = map (digits 16); (s, e) = zero_run gs
      in if s = 255 then JoinByte (CHR '':'') (hex gs)
         else JoinByte (CHR '':'') (hex (take s gs)) @ ''::'' @
              JoinByte (CHR '':'') (hex (drop e gs)))"

fun Addr_String :: "Addr \<Rightarrow> string" where
  "Addr_String (Addr4 w) = string4 w"
| "Addr_String (Addr6 w zone) =
     (if is4in6 w then ''::ffff:'' @ string4 (ucast w) else string6 w) @
     (if zone = [] then [] else CHR ''%'' # zone)"

section \<open>net.IP\<close>

definition ParseIP :: "string \<Rightarrow> 128 word option" where
  "ParseIP s =
     (case ParseAddr s of
        Some (Addr4 w) \<Rightarrow> Some (mapped4 w)
      | Some (Addr6 w zone) \<Rightarrow> if zone = [] then Some w else None
      | None \<Rightarrow> None)"

definition IP_String :: "128 word \<Rightarrow> string" where
  "IP_String w = (if is4in6 w then string4 (ucast w) else string6 w)"

definition IsLoopback :: "128 word \<Rightarrow> bool" where
  "IsLoopback w \<longleftrightarrow> (if is4in6 w then drop_bit 24 (ucast w :: 32 word) = 127 else w = 1)"

section \<open>Prefixes\<close>

datatype Prefix = Prefix Addr nat

fun BitLen :: "Addr \<Rightarrow> nat" where
  "BitLen (Addr4 w) = 32"
| "BitLen (Addr6 w zone) = 128"

fun Masked :: "Prefix \<Rightarrow> Prefix" where
  "Masked (Prefix (Addr4 w) b) = Prefix (Addr4 (push_bit (32 - b) (drop_bit (32 - b) w))) b"
| "Masked (Prefix (Addr6 w zone) b) =
     Prefix (Addr6 (push_bit (128 - b) (drop_bit (128 - b) w)) []) b"

fun Contains :: "Prefix \<Rightarrow> Addr \<Rightarrow> bool" where
  "Contains (Prefix (Addr4 p) b) (Addr4 w) = (drop_bit (32 - b) (w XOR p) = 0)"
| "Contains (Prefix (Addr6 p pz) b) (Addr6 w zone) =
     (zone = [] \<and> drop_bit (128 - b) (w XOR p) = 0)"
| "Contains (Prefix _ b) _ = False"

text \<open>\<open>host\<close> and \<open>rest\<close> around the last occurrence of a byte.\<close>

definition LastCut :: "char \<Rightarrow> string \<Rightarrow> (string \<times> string) option" where
  "LastCut c s =
     (case CutByte c (rev s) of (a, b, found) \<Rightarrow> if found then Some (rev b, rev a) else None)"

definition ParsePrefix :: "string \<Rightarrow> Prefix option" where
  "ParsePrefix s =
     (case LastCut (CHR ''/'') s of
        None \<Rightarrow> None
      | Some (addr, bitsStr) \<Rightarrow>
          (case ParseAddr addr of
             None \<Rightarrow> None
           | Some ip \<Rightarrow>
               if Zone ip \<noteq> [] then None
               else if 1 < length bitsStr \<and> (byte (hd bitsStr) < 49 \<or> 57 < byte (hd bitsStr)) then None
               else (case Atoi bitsStr of
                       None \<Rightarrow> None
                     | Some bits \<Rightarrow>
                         if bits < 0 \<or> int (BitLen ip) < bits then None
                         else Some (Prefix ip (nat bits)))))"

section \<open>net.SplitHostPort and net.JoinHostPort\<close>

definition SplitHostPort :: "string \<Rightarrow> (string \<times> string) option" where
  "SplitHostPort hostport =
     (case LastCut (CHR '':'') hostport of
        None \<Rightarrow> None
      | Some (pre, port) \<Rightarrow>
          if hd hostport = CHR ''['' then
            (case CutByte (CHR '']'') hostport of (h, after, found) \<Rightarrow>
               if \<not> found \<or> length pre \<noteq> length h + 1 then None
               else if CHR ''['' \<in> set (tl hostport) \<or> CHR '']'' \<in> set after then None
               else Some (tl h, port))
          else if CHR '':'' \<in> set pre then None
          else if CHR ''['' \<in> set hostport \<or> CHR '']'' \<in> set hostport then None
          else Some (pre, port))"

definition JoinHostPort :: "string \<Rightarrow> string \<Rightarrow> string" where
  "JoinHostPort host port =
     (if CHR '':'' \<in> set host then ''['' @ host @ '']:'' @ port else host @ '':'' @ port)"

end
