(* ===== verification/Go_Net_Canon.thy ===== *)
theory Go_Net_Canon
  imports Go_Net
begin

text \<open>
  Parsing inverts printing: \<open>ParseAddr\<close> of the text of an address gives that address back, so an
  address printed by \<open>IP_String\<close> is a normal form of \<open>ParseIP\<close>. Also the characters such a text
  can have. Every component that canonicalises an address rests on these facts.
\<close>

section \<open>The octets of an IPv4 address\<close>

text \<open>The value a decimal field reader has accumulated after some more digits.\<close>

definition more_digits :: "nat \<Rightarrow> string \<Rightarrow> nat" where
  "more_digits v ds = foldl (\<lambda>v c. v * 10 + (byte c - 48)) v ds"

lemma more_digits_simps [simp]:
  "more_digits v [] = v"
  "more_digits v (c # cs) = more_digits (v * 10 + (byte c - 48)) cs"
  by (simp_all add: more_digits_def)

lemma more_digits_mono: "v \<le> more_digits v ds"
proof (induction ds arbitrary: v)
  case Nil
  then show ?case by simp
next
  case (Cons c cs)
  have "v \<le> v * 10 + (byte c - 48)" by simp
  also have "\<dots> \<le> more_digits v (c # cs)" using Cons.IH by simp
  finally show ?case .
qed

lemma more_digits_nat_value:
  "list_all is_digit ds \<Longrightarrow> more_digits 0 ds = nat_value 10 ds"
proof (induction ds rule: rev_induct)
  case Nil
  then show ?case by simp
next
  case (snoc c ds)
  then show ?case by (simp add: nat_value_snoc more_digits_def digit_val_def)
qed

lemma ipv4_fields_more:
  assumes "list_all is_digit ds" "0 < val" "0 < k" "more_digits val ds \<le> 255"
  shows "ipv4_fields (ds @ rest) val k fields =
    ipv4_fields rest (more_digits val ds) (k + length ds) fields"
  using assms
proof (induction ds arbitrary: val k)
  case Nil
  then show ?case by simp
next
  case (Cons c cs)
  let ?v = "val * 10 + (byte c - 48)"
  have "?v \<le> 255"
    using Cons.prems(4) more_digits_mono [of ?v cs] by simp
  with Cons.prems have "ipv4_fields ((c # cs) @ rest) val k fields =
      ipv4_fields (cs @ rest) ?v (k + 1) fields"
    by simp
  also have "\<dots> = ipv4_fields rest (more_digits ?v cs) (k + 1 + length cs) fields"
    using Cons.prems by (intro Cons.IH) auto
  finally show ?case by simp
qed

lemma ipv4_fields_octet:
  assumes "n \<le> 255"
  shows "\<exists>k>0. ipv4_fields (digits 10 n @ rest) 0 0 fields = ipv4_fields rest n k fields"
proof -
  obtain c cs where ds: "digits 10 n = c # cs"
    using digits_ne by (cases "digits 10 n") auto
  have dig: "list_all is_digit (c # cs)"
    using digits_10_digit by (simp add: ds [symmetric] list_all_iff)
  have n: "more_digits (byte c - 48) cs = n"
    using more_digits_nat_value [OF dig] nat_value_digits [of 10 n] by (simp add: ds)
  have first: "ipv4_fields (digits 10 n @ rest) 0 0 fields =
      ipv4_fields (cs @ rest) (byte c - 48) 1 fields"
    using dig by (auto simp: ds is_digit_def)
  show ?thesis
  proof (cases "cs = []")
    case True
    with first n show ?thesis by auto
  next
    case False
    have "byte c \<noteq> 48"
    proof
      assume "byte c = 48"
      then have "c = digit_char 0" by (simp add: digit_char_def byte_inj [symmetric])
      with ds digits_leading_zero [of 10 n] have "n = 0" by simp
      then have "digits 10 n = [digit_char 0]" by (subst digits.simps) simp
      with ds False show False by simp
    qed
    with dig have "0 < byte c - 48" by (simp add: is_digit_def)
    with dig n assms have "ipv4_fields (cs @ rest) (byte c - 48) 1 fields =
        ipv4_fields rest n (1 + length cs) fields"
      by (subst ipv4_fields_more) auto
    with first show ?thesis by auto
  qed
qed

lemma ipv4_fields_dot:
  "0 < k \<Longrightarrow> rest \<noteq> [] \<Longrightarrow> length fields < 3 \<Longrightarrow>
    ipv4_fields (CHR ''.'' # rest) n k fields = ipv4_fields rest 0 0 (fields @ [n])"
  by (simp add: is_digit_def byte_def)

lemma ipv4_fields_quad:
  assumes "a \<le> 255" "b \<le> 255" "c \<le> 255" "d \<le> 255"
  shows "ipv4_fields (JoinByte (CHR ''.'') (map (digits 10) [a, b, c, d])) 0 0 [] =
    Some [a, b, c, d]"
proof -
  have dot: "ipv4_fields (digits 10 n @ CHR ''.'' # rest) 0 0 fs = ipv4_fields rest 0 0 (fs @ [n])"
    if "n \<le> 255" "rest \<noteq> []" "length fs < 3" for n rest fs
    using ipv4_fields_octet [OF that(1), of "CHR ''.'' # rest" fs] that ipv4_fields_dot by auto
  have last: "ipv4_fields (digits 10 n) 0 0 fs = Some (fs @ [n])"
    if "n \<le> 255" "length fs = 3" for n fs
    using ipv4_fields_octet [OF that(1), of "[]" fs] that by auto
  show ?thesis using assms by (simp add: dot last)
qed

section \<open>IPv4 text\<close>

lemma length4_split: "length xs = 4 \<Longrightarrow> \<exists>a b c d. xs = [a, b, c, d]"
  by (auto simp: eval_nat_numeral length_Suc_conv)

lemma string4_fields: "ipv4_fields (string4 w) 0 0 [] = Some (to_base 256 4 (unat w))"
proof -
  obtain a b c d where bs: "to_base 256 4 (unat w) = [a, b, c, d]"
    using length4_split [of "to_base 256 4 (unat w)"] by auto
  have "x \<le> 255" if "x \<in> {a, b, c, d}" for x
    using to_base_less [of 256 x 4 "unat w"] that by (auto simp: bs simp del: to_base.simps)
  then show ?thesis
    unfolding string4_def bs by (intro ipv4_fields_quad) auto
qed

lemma addr4_of_bytes: "of_nat (of_base 256 (to_base 256 4 (unat w))) = (w :: 32 word)"
proof -
  have "unat w < 256 ^ 4" using unsigned_less [of w, where ?'a = nat] by simp
  then show ?thesis by (simp add: of_base_to_base del: to_base.simps)
qed

text \<open>The characters of an address: digits, letters \<open>a\<close> to \<open>f\<close>, dots and colons.\<close>

definition addr_char :: "char \<Rightarrow> bool" where
  "addr_char c \<longleftrightarrow> is_digit c \<or> (97 \<le> byte c \<and> byte c \<le> 102) \<or> c = CHR ''.'' \<or> c = CHR '':''"

lemma set_JoinByte: "set (JoinByte c ws) \<subseteq> insert c (\<Union> (set ` set ws))"
  by (induction c ws rule: JoinByte.induct) auto

lemma JoinByte_sep_in: "2 \<le> length ws \<Longrightarrow> c \<in> set (JoinByte c ws)"
  by (induction c ws rule: JoinByte.induct) auto

lemma string4_chars: "c \<in> set (string4 w) \<Longrightarrow> is_digit c \<or> c = CHR ''.''"
  unfolding string4_def
  using set_JoinByte [of "CHR ''.''" "map (digits 10) (to_base 256 4 (unat w))"]
  by (auto dest: digits_10_digit simp del: to_base.simps)

lemma string4_dot: "CHR ''.'' \<in> set (string4 w)"
  unfolding string4_def by (rule JoinByte_sep_in) simp

lemma find_only:
  assumes "x \<in> set xs" "P x" "\<And>y. y \<in> set xs \<Longrightarrow> P y \<Longrightarrow> y = x"
  shows "find P xs = Some x"
proof (cases "find P xs")
  case None
  with assms(1,2) show ?thesis by (auto simp: find_None_iff)
next
  case (Some y)
  then have "y \<in> set xs" "P y" by (auto simp: find_Some_iff)
  with assms(3) Some show ?thesis by simp
qed

lemma ParseAddr_string4: "ParseAddr (string4 w) = Some (Addr4 w)"
proof -
  have "find (\<lambda>c. c = CHR ''.'' \<or> c = CHR '':'' \<or> c = CHR ''%'') (string4 w) = Some (CHR ''.'')"
  proof (rule find_only [OF string4_dot])
    fix y
    assume "y \<in> set (string4 w)" "y = CHR ''.'' \<or> y = CHR '':'' \<or> y = CHR ''%''"
    with string4_chars [of y w] show "y = CHR ''.''" by (auto simp: is_digit_def byte_def)
  qed simp
  then show ?thesis
    by (simp add: ParseAddr_def parseIPv4_def string4_fields addr4_of_bytes del: to_base.simps)
qed

section \<open>The groups of an IPv6 address\<close>

lemma hex_group_append:
  assumes "\<And>c. c \<in> set ds \<Longrightarrow> digit_val c \<noteq> None" "off + length ds \<le> 4"
    and "rest = [] \<or> digit_val (hd rest) = None"
  shows "hex_group off acc (ds @ rest) =
    Some (off + length ds, foldl (\<lambda>v c. v * 16 + the (digit_val c)) acc ds, rest)"
  using assms
proof (induction ds arbitrary: off acc)
  case Nil
  then show ?case by (cases rest) auto
next
  case (Cons c cs)
  then obtain d where "digit_val c = Some d" by fastforce
  with Cons show ?case by simp
qed

lemma foldl_hex_nat_value:
  "(\<And>c. c \<in> set ds \<Longrightarrow> digit_val c \<noteq> None) \<Longrightarrow>
    foldl (\<lambda>v c. v * 16 + the (digit_val c)) 0 ds = nat_value 16 ds"
proof (induction ds rule: rev_induct)
  case Nil
  then show ?case by simp
next
  case (snoc c ds)
  then obtain d where "digit_val c = Some d" by fastforce
  with snoc show ?case by (simp add: nat_value_snoc)
qed

lemma digits_16_val: "c \<in> set (digits 16 n) \<Longrightarrow> digit_val c \<noteq> None"
  using digits_chars [of 16 c n] by (auto simp: digit_val_char)

lemma hex_group_digits:
  assumes "n < 65536" "rest = [] \<or> digit_val (hd rest) = None"
  shows "\<exists>k>0. hex_group 0 0 (digits 16 n @ rest) = Some (k, n, rest)"
proof -
  have "length (digits 16 n) \<le> 4" using assms(1) digits_length [of 16 n 4] by simp
  then have "hex_group 0 0 (digits 16 n @ rest) =
      Some (0 + length (digits 16 n), nat_value 16 (digits 16 n), rest)"
    using hex_group_append [of "digits 16 n" 0 rest 0] digits_16_val assms(2)
    by (simp add: foldl_hex_nat_value)
  moreover have "nat_value 16 (digits 16 n) = n" by (simp add: nat_value_digits)
  moreover have "0 < length (digits 16 n)" by simp
  ultimately show ?thesis by auto
qed

lemma digit_val_colon [simp]: "digit_val (CHR '':'') = None"
  by (simp add: digit_val_def is_digit_def byte_def)

lemma digits_16_not_sep: "hd (digits 16 n @ t) \<noteq> CHR '':'' \<and> hd (digits 16 n @ t) \<noteq> CHR ''.''"
proof -
  have "hd (digits 16 n @ t) \<in> set (digits 16 n)" by simp
  then have "digit_val (hd (digits 16 n @ t)) \<noteq> None" by (rule digits_16_val)
  then show ?thesis by (auto simp: digit_val_def is_digit_def byte_def)
qed

text \<open>One group followed by a colon and another group; one group at the end; one before \<open>::\<close>.\<close>

lemma ipv6_groups_next:
  assumes "n < 65536" "length gs < 8" "t \<noteq> []" "hd t \<noteq> CHR '':''"
  shows "ipv6_groups (digits 16 n @ CHR '':'' # t) gs e = ipv6_groups t (gs @ [n]) e"
proof -
  obtain k where "0 < k" "hex_group 0 0 (digits 16 n @ CHR '':'' # t) = Some (k, n, CHR '':'' # t)"
    using hex_group_digits [OF assms(1), of "CHR '':'' # t"] by auto
  with assms show ?thesis by (subst ipv6_groups.simps) simp
qed

lemma ipv6_groups_last:
  assumes "n < 65536" "length gs < 8"
  shows "ipv6_groups (digits 16 n) gs e = Some (gs @ [n], e)"
proof -
  obtain k where "0 < k" "hex_group 0 0 (digits 16 n) = Some (k, n, [])"
    using hex_group_digits [OF assms(1), of "[]"] by auto
  with assms show ?thesis by (subst ipv6_groups.simps) simp
qed

lemma ipv6_groups_ellipsis:
  assumes "n < 65536" "length gs < 8"
  shows "ipv6_groups (digits 16 n @ ''::'' @ t) gs None =
    (if t = [] then Some (gs @ [n], Some (length gs + 1))
     else ipv6_groups t (gs @ [n]) (Some (length gs + 1)))"
proof -
  obtain k where "0 < k" "hex_group 0 0 (digits 16 n @ ''::'' @ t) = Some (k, n, ''::'' @ t)"
    using hex_group_digits [OF assms(1), of "''::'' @ t"] by auto
  with assms show ?thesis by (subst ipv6_groups.simps) simp
qed

lemma Join_hex_Cons:
  "JoinByte (CHR '':'') (map (digits 16) (h # h' # hs)) =
    digits 16 h @ CHR '':'' # JoinByte (CHR '':'') (map (digits 16) (h' # hs))"
  by simp

lemma Join_hex_hd:
  "JoinByte (CHR '':'') (map (digits 16) (h # hs)) @ t \<noteq> [] \<and>
   hd (JoinByte (CHR '':'') (map (digits 16) (h # hs)) @ t) \<noteq> CHR '':''"
proof (cases hs)
  case Nil
  then show ?thesis using digits_16_not_sep by simp
next
  case (Cons h' hs')
  then show ?thesis
    using digits_16_not_sep [of h "CHR '':'' # JoinByte (CHR '':'') (map (digits 16) hs) @ t"]
    by simp
qed

lemma ipv6_groups_join:
  "hs \<noteq> [] \<Longrightarrow> \<forall>h\<in>set hs. h < 65536 \<Longrightarrow> length gs + length hs \<le> 8 \<Longrightarrow>
    ipv6_groups (JoinByte (CHR '':'') (map (digits 16) hs)) gs e = Some (gs @ hs, e)"
proof (induction hs arbitrary: gs)
  case Nil
  then show ?case by simp
next
  case (Cons h hs)
  show ?case
  proof (cases hs)
    case Nil
    with Cons.prems show ?thesis by (simp add: ipv6_groups_last)
  next
    case (Cons h' hs')
    let ?t = "JoinByte (CHR '':'') (map (digits 16) hs)"
    have "ipv6_groups (digits 16 h @ CHR '':'' # ?t) gs e = ipv6_groups ?t (gs @ [h]) e"
      using Cons.prems Join_hex_hd [of h' hs' "[]"] Cons by (intro ipv6_groups_next) auto
    also have "\<dots> = Some ((gs @ [h]) @ hs, e)"
      using Cons.prems Cons by (intro Cons.IH) auto
    finally show ?thesis using Cons by simp
  qed
qed

lemma ipv6_groups_join_ellipsis:
  "hs \<noteq> [] \<Longrightarrow> \<forall>h\<in>set hs. h < 65536 \<Longrightarrow> length gs + length hs \<le> 8 \<Longrightarrow>
    ipv6_groups (JoinByte (CHR '':'') (map (digits 16) hs) @ ''::'' @ t) gs None =
      (if t = [] then Some (gs @ hs, Some (length gs + length hs))
       else ipv6_groups t (gs @ hs) (Some (length gs + length hs)))"
proof (induction hs arbitrary: gs)
  case Nil
  then show ?case by simp
next
  case (Cons h hs)
  show ?case
  proof (cases hs)
    case Nil
    with Cons.prems show ?thesis using ipv6_groups_ellipsis [of h gs t] by simp
  next
    case (Cons h' hs')
    let ?t = "JoinByte (CHR '':'') (map (digits 16) hs) @ ''::'' @ t"
    have "ipv6_groups (digits 16 h @ CHR '':'' # ?t) gs None = ipv6_groups ?t (gs @ [h]) None"
      using Cons.prems Join_hex_hd [of h' hs' "''::'' @ t"] Cons by (intro ipv6_groups_next) auto
    also have "\<dots> = (if t = [] then Some ((gs @ [h]) @ hs, Some (length (gs @ [h]) + length hs))
       else ipv6_groups t ((gs @ [h]) @ hs) (Some (length (gs @ [h]) + length hs)))"
      using Cons.prems Cons by (intro Cons.IH) auto
    finally show ?thesis using Cons by simp
  qed
qed

section \<open>IPv6 text\<close>

text \<open>A run of zero groups, as printing looks for it.\<close>

definition zeros_at :: "nat list \<Rightarrow> nat \<Rightarrow> nat \<Rightarrow> bool" where
  "zeros_at gs s e \<longleftrightarrow>
     s + 2 \<le> e \<and> e \<le> length gs \<and> take (e - s) (drop s gs) = replicate (e - s) 0"

lemma zeros_at_len: "2 \<le> zero_len gs i \<Longrightarrow> zeros_at gs i (i + zero_len gs i)"
proof -
  assume l: "2 \<le> zero_len gs i"
  have le: "zero_len gs i \<le> length (drop i gs)"
    unfolding zero_len_def by (rule length_takeWhile_le)
  have "takeWhile (\<lambda>g. g = 0) (drop i gs) = replicate (zero_len gs i) 0"
    unfolding zero_len_def by (rule replicate_eqI [symmetric, THEN sym]) (auto dest: set_takeWhileD)
  moreover have "take (zero_len gs i) (drop i gs) = takeWhile (\<lambda>g. g = 0) (drop i gs)"
    unfolding zero_len_def by (metis takeWhile_eq_take)
  ultimately show ?thesis using l le by (auto simp: zeros_at_def)
qed

lemma zero_run_cases:
  "zero_run gs = (255, 255) \<or> (\<exists>s e. zero_run gs = (s, e) \<and> zeros_at gs s e)"
proof -
  let ?f = "\<lambda>(s, e) i. if 2 \<le> zero_len gs i \<and> e - s < zero_len gs i
      then (i, i + zero_len gs i) else (s, e)"
  have "foldl ?f p is = (255, 255) \<or> (\<exists>s e. foldl ?f p is = (s, e) \<and> zeros_at gs s e)"
    if "p = (255, 255) \<or> zeros_at gs (fst p) (snd p)" for p "is"
    using that
  proof (induction "is" arbitrary: p)
    case Nil
    then show ?case by (cases p) auto
  next
    case (Cons i js)
    have "?f p i = (255, 255) \<or> zeros_at gs (fst (?f p i)) (snd (?f p i))"
      using Cons.prems zeros_at_len [of gs i] by (cases p) auto
    from Cons.IH [OF this] show ?case by simp
  qed
  from this [of "(255, 255)" "[0..<8]"] show ?thesis by (simp add: zero_run_def)
qed

lemma zeros_at_split:
  assumes "zeros_at gs s e"
  shows "gs = take s gs @ replicate (e - s) 0 @ drop e gs"
proof -
  have "drop s gs = take (e - s) (drop s gs) @ drop (e - s) (drop s gs)"
    by (rule append_take_drop_id [symmetric])
  also have "drop (e - s) (drop s gs) = drop e gs" using assms by (simp add: zeros_at_def)
  finally have "drop s gs = replicate (e - s) 0 @ drop e gs" using assms by (simp add: zeros_at_def)
  then show ?thesis by (metis append_take_drop_id)
qed

lemma length_groups6 [simp]: "length (groups6 w) = 8"
  by (simp add: groups6_def del: to_base.simps)

lemma groups6_less: "g \<in> set (groups6 w) \<Longrightarrow> g < 65536"
  unfolding groups6_def by (rule to_base_less [rotated]) auto

lemma addr6_of_groups6: "addr6_of (groups6 w) = w"
proof -
  have "unat w < 65536 ^ 8" using unsigned_less [of w, where ?'a = nat] by simp
  then show ?thesis by (simp add: addr6_of_def groups6_def of_base_to_base del: to_base.simps)
qed

lemma of_base_zeros: "of_base B (replicate n 0) = 0"
  by (induction n) (simp_all add: of_base_def)

text \<open>The text of an IPv6 address: all groups, or the groups around one run of zeros.\<close>

lemma string6_cases:
  obtains (all) "string6 w = JoinByte (CHR '':'') (map (digits 16) (groups6 w))"
  | (run) A n B where "groups6 w = A @ replicate n 0 @ B" "2 \<le> n"
      "string6 w = JoinByte (CHR '':'') (map (digits 16) A) @ ''::'' @
         JoinByte (CHR '':'') (map (digits 16) B)"
proof (cases "zero_run (groups6 w) = (255, 255)")
  case True
  then show ?thesis by (intro all) (simp add: string6_def Let_def)
next
  case False
  with zero_run_cases [of "groups6 w"] obtain s e
    where se: "zero_run (groups6 w) = (s, e)" "zeros_at (groups6 w) s e" by auto
  then have "s < 8" "2 \<le> e - s" by (auto simp: zeros_at_def)
  then show ?thesis
    using se zeros_at_split [OF se(2)] by (intro run) (auto simp: string6_def Let_def)
qed

lemma string6_chars: "c \<in> set (string6 w) \<Longrightarrow> digit_val c \<noteq> None \<or> c = CHR '':''"
proof -
  have join: "digit_val c \<noteq> None \<or> c = CHR '':''"
    if "c \<in> set (JoinByte (CHR '':'') (map (digits 16) gs))" for c gs
    using that set_JoinByte [of "CHR '':''" "map (digits 16) gs"] digits_16_val by fastforce
  assume "c \<in> set (string6 w)"
  then show ?thesis by (cases rule: string6_cases [of w]) (auto dest: join)
qed

lemma string6_colon: "CHR '':'' \<in> set (string6 w)"
  by (cases rule: string6_cases [of w]) (auto intro: JoinByte_sep_in)

lemma not_percent: "digit_val c \<noteq> None \<or> c = CHR '':'' \<Longrightarrow> c \<noteq> CHR ''%'' \<and> c \<noteq> CHR ''.''"
  by (auto simp: digit_val_def is_digit_def byte_def)

lemma hd_not_ellipsis: "hd s \<noteq> CHR '':'' \<Longrightarrow> s \<noteq> ''::'' \<and> \<not> HasPrefix s ''::''"
  by (cases s) (auto simp: HasPrefix_def)

lemma parseIPv6_plain:
  "CHR ''%'' \<notin> set s \<Longrightarrow> s \<noteq> ''::'' \<Longrightarrow>
    (if HasPrefix s ''::'' then ipv6_groups (drop 2 s) [] (Some 0) else ipv6_groups s [] None) = Some r \<Longrightarrow>
    expand_ellipsis r = Some (groups6 w) \<Longrightarrow> parseIPv6 s = Some (Addr6 w [])"
  by (simp add: parseIPv6_def CutByte_absent addr6_of_groups6 split del: if_split)

lemma parseIPv6_string6: "parseIPv6 (string6 w) = Some (Addr6 w [])"
proof -
  let ?join = "\<lambda>gs. JoinByte (CHR '':'') (map (digits 16) gs)"
  have pc: "CHR ''%'' \<notin> set (string6 w)" using string6_chars not_percent by blast
  show ?thesis
  proof (cases rule: string6_cases [of w])
    case all
    obtain g gs where gs: "groups6 w = g # gs"
      using length_groups6 [of w] by (cases "groups6 w") (auto simp del: length_groups6)
    have "hd (string6 w) \<noteq> CHR '':''" using Join_hex_hd [of g gs "[]"] by (simp add: all gs)
    moreover have "ipv6_groups (string6 w) [] None = Some ([] @ groups6 w, None)"
      unfolding all by (rule ipv6_groups_join) (simp_all add: gs, use groups6_less [of _ w] length_groups6 [of w] in \<open>simp_all add: gs\<close>)
    ultimately show ?thesis
      using pc hd_not_ellipsis by (intro parseIPv6_plain [where r = "(groups6 w, None)"])
        (auto simp: expand_ellipsis_def)
  next
    case (run A n B)
    have len: "length A + n + length B = 8" using length_groups6 [of w] by (simp add: run)
    have small: "\<forall>h\<in>set A. h < 65536" "\<forall>h\<in>set B. h < 65536"
      using groups6_less [of _ w] by (auto simp: run(1))
    have B: "ipv6_groups (?join B) gs e = Some (gs @ B, e)" if "B \<noteq> []" "length gs = length A" for gs e
      using that len run(2) small by (intro ipv6_groups_join) auto
    show ?thesis
    proof (cases "A = []")
      case True
      show ?thesis
      proof (cases "B = []")
        case Bnil: True
        have "of_base 65536 (groups6 w) = 0" using True Bnil by (simp add: run(1) of_base_zeros)
        then have "w = 0" using addr6_of_groups6 [of w] by (simp add: addr6_of_def)
        then show ?thesis using True Bnil run(3) by (simp add: parseIPv6_def CutByte_absent)
      next
        case False
        then have "?join B \<noteq> []" using Join_hex_hd [of "hd B" "tl B" "[]"] by simp
        then show ?thesis
          using True False pc B [of "[]" "Some 0"] len run
          by (intro parseIPv6_plain [where r = "(B, Some 0)"]) (auto simp: HasPrefix_def expand_ellipsis_def)
      qed
    next
      case False
      then have "hd (string6 w) \<noteq> CHR '':''"
        using Join_hex_hd [of "hd A" "tl A" "''::'' @ ?join B"] by (simp add: run)
      moreover have "ipv6_groups (string6 w) [] None = Some (A @ B, Some (length A))"
      proof (cases "B = []")
        case True
        then show ?thesis
          using ipv6_groups_join_ellipsis [of A "[]" "[]"] False len small by (simp add: run)
      next
        case Bne: False
        then have "?join B \<noteq> []" using Join_hex_hd [of "hd B" "tl B" "[]"] by simp
        then show ?thesis
          using ipv6_groups_join_ellipsis [of A "[]" "?join B"] False len small B [of A] Bne
          by (simp add: run)
      qed
      ultimately show ?thesis
        using pc hd_not_ellipsis len run(1,2)
        by (intro parseIPv6_plain [where r = "(A @ B, Some (length A))"])
          (auto simp: expand_ellipsis_def)
    qed
  qed
qed

lemma ParseAddr_string6: "ParseAddr (string6 w) = Some (Addr6 w [])"
proof -
  have "find (\<lambda>c. c = CHR ''.'' \<or> c = CHR '':'' \<or> c = CHR ''%'') (string6 w) = Some (CHR '':'')"
  proof (rule find_only [OF string6_colon])
    fix y
    assume "y \<in> set (string6 w)" "y = CHR ''.'' \<or> y = CHR '':'' \<or> y = CHR ''%''"
    with string6_chars [of y w] not_percent [of y] show "y = CHR '':''" by blast
  qed simp
  then show ?thesis by (simp add: ParseAddr_def parseIPv6_string6)
qed

section \<open>Canonical text\<close>

lemma mapped4_ucast: "is4in6 w \<Longrightarrow> mapped4 (ucast w) = w"
proof -
  assume w: "is4in6 w"
  have "push_bit 32 (drop_bit 32 w) OR ucast (ucast w :: 32 word) = w"
    by (rule bit_word_eqI) (auto simp: bit_simps)
  with w show ?thesis by (simp add: mapped4_def is4in6_def)
qed

lemma ParseIP_IP_String: "ParseIP (IP_String w) = Some w"
  by (simp add: ParseIP_def IP_String_def ParseAddr_string4 ParseAddr_string6 mapped4_ucast)

lemma addr_char_digit_val: "digit_val c \<noteq> None \<Longrightarrow> \<not> (65 \<le> byte c \<and> byte c \<le> 70) \<Longrightarrow> addr_char c"
  by (auto simp: digit_val_def addr_char_def split: if_splits)

lemma digits_16_addr_char: "c \<in> set (digits 16 n) \<Longrightarrow> addr_char c"
  using digits_chars [of 16 c n] by (auto simp: addr_char_def digit_char_def is_digit_def split: if_splits)

lemma IP_String_chars: "c \<in> set (IP_String w) \<Longrightarrow> addr_char c"
proof -
  have join: "addr_char c" if "c \<in> set (JoinByte (CHR '':'') (map (digits 16) gs))" for c gs
    using that set_JoinByte [of "CHR '':''" "map (digits 16) gs"] digits_16_addr_char
    by (fastforce simp: addr_char_def)
  have six: "addr_char c" if "c \<in> set (string6 w)" for w
    using that by (cases rule: string6_cases [of w]) (auto dest: join simp: addr_char_def)
  assume "c \<in> set (IP_String w)"
  then show ?thesis
    using string4_chars [of c] six by (auto simp: IP_String_def addr_char_def split: if_splits)
qed

lemma addr_char_graph: "addr_char c \<Longrightarrow> is_graph c"
  by (auto simp: addr_char_def is_digit_def is_graph_def byte_def)

lemma IP_String_graph: "list_all is_graph (IP_String w)"
  using IP_String_chars addr_char_graph by (auto simp: list_all_iff)

lemma IP_String_ne [simp]: "IP_String w \<noteq> []"
  using string4_dot [of "ucast w"] string6_colon [of w] by (auto simp: IP_String_def)

section \<open>Evaluation on concrete text\<close>

lemma digit_char_eval [go_eval]:
  "digit_char 0 = CHR ''0''" "digit_char 1 = CHR ''1''" "digit_char (Suc 0) = CHR ''1''"
  "digit_char 2 = CHR ''2''" "digit_char 3 = CHR ''3''" "digit_char 4 = CHR ''4''"
  "digit_char 5 = CHR ''5''" "digit_char 6 = CHR ''6''" "digit_char 7 = CHR ''7''"
  "digit_char 8 = CHR ''8''" "digit_char 9 = CHR ''9''" "digit_char 10 = CHR ''a''"
  "digit_char 11 = CHR ''b''" "digit_char 12 = CHR ''c''" "digit_char 13 = CHR ''d''"
  "digit_char 14 = CHR ''e''" "digit_char 15 = CHR ''f''"
  by code_simp+

lemma to_base_4 [go_eval]:
  "to_base B 4 v = [v div B div B div B mod B, v div B div B mod B, v div B mod B, v mod B]"
  by (simp add: eval_nat_numeral)

lemmas [go_eval] =
  digits.simps string4_def is4in6_def mapped4_def IP_String_def ParseIP_def ParseAddr_def
  parseIPv4_def is_digit_def byte_def of_base_def digit_val_def HasPrefix_def
  SplitHostPort_def LastCut_def TrimSpace_graph is_graph_def Trim_def

end
