(* ===== verification/Go_Http.thy ===== *)
theory Go_Http
  imports Go_Strings
begin

text \<open>
  What the program uses of \<open>net/http\<close>: a header is a map from canonical keys to lists of values
  (an absent key has the empty list), a request carries the fields the handlers read, and a
  response is the status, the header map and the body a handler has written. \<open>token_info\<close> is the
  part of \<open>auth.TokenInfo\<close> that \<open>oidcTokenVerifier\<close> fills in; it travels in the request's context.
\<close>

section \<open>Headers\<close>

type_synonym Header = "string \<Rightarrow> string list"

definition is_token_char :: "char \<Rightarrow> bool" where
  "is_token_char c \<longleftrightarrow> is_digit c \<or> is_lower c \<or> is_upper c \<or> c \<in> set ''!#$%&*+-.^_`|~'' \<or> byte c = 39"

definition ascii_upper :: "char \<Rightarrow> char" where
  "ascii_upper c = (if is_lower c then char_of (byte c - 32) else c)"

fun canonical_key :: "bool \<Rightarrow> string \<Rightarrow> string" where
  "canonical_key upper [] = []"
| "canonical_key upper (c # cs) =
     (if upper then ascii_upper c else ascii_lower c) # canonical_key (c = CHR ''-'') cs"

definition CanonicalHeaderKey :: "string \<Rightarrow> string" where
  "CanonicalHeaderKey k = (if list_all is_token_char k then canonical_key True k else k)"

definition no_header :: Header where
  "no_header = (\<lambda>_. [])"

definition Values :: "Header \<Rightarrow> string \<Rightarrow> string list" where
  "Values h k = h (CanonicalHeaderKey k)"

definition Get :: "Header \<Rightarrow> string \<Rightarrow> string" where
  "Get h k = (case Values h k of [] \<Rightarrow> [] | v # _ \<Rightarrow> v)"

definition SetHeader :: "string \<Rightarrow> string \<Rightarrow> Header \<Rightarrow> Header" where
  "SetHeader k v h = h(CanonicalHeaderKey k := [v])"

definition AddHeader :: "string \<Rightarrow> string \<Rightarrow> Header \<Rightarrow> Header" where
  "AddHeader k v h = h(CanonicalHeaderKey k := Values h k @ [v])"

definition DelHeader :: "string \<Rightarrow> Header \<Rightarrow> Header" where
  "DelHeader k h = h(CanonicalHeaderKey k := [])"

lemma Values_Set:
  "Values (SetHeader k v h) k' =
     (if CanonicalHeaderKey k' = CanonicalHeaderKey k then [v] else Values h k')"
  by (simp add: Values_def SetHeader_def)

lemma Values_Del:
  "Values (DelHeader k h) k' =
     (if CanonicalHeaderKey k' = CanonicalHeaderKey k then [] else Values h k')"
  by (simp add: Values_def DelHeader_def)

lemma Values_Add:
  "Values (AddHeader k v h) k' =
     (if CanonicalHeaderKey k' = CanonicalHeaderKey k then Values h k @ [v] else Values h k')"
  by (simp add: Values_def AddHeader_def)

lemma Get_Set:
  "Get (SetHeader k v h) k' =
     (if CanonicalHeaderKey k' = CanonicalHeaderKey k then v else Get h k')"
  by (simp add: Get_def Values_Set)

lemma Get_Del:
  "Get (DelHeader k h) k' =
     (if CanonicalHeaderKey k' = CanonicalHeaderKey k then [] else Get h k')"
  by (simp add: Get_def Values_Del)

lemma Values_no_header [simp]: "Values no_header k = []" "Get no_header k = []"
  by (simp_all add: Values_def no_header_def Get_def)

lemmas header_simps = Values_Set Values_Del Values_Add Get_Set Get_Del

text \<open>The keys the program names, in canonical form.\<close>

lemma canonical_keys [simp]:
  "CanonicalHeaderKey ''X-API-Key'' = ''X-Api-Key''"
  "CanonicalHeaderKey ''X-Forwarded-For'' = ''X-Forwarded-For''"
  "CanonicalHeaderKey ''Origin'' = ''Origin''"
  "CanonicalHeaderKey ''Sec-Fetch-Site'' = ''Sec-Fetch-Site''"
  "CanonicalHeaderKey ''Cache-Control'' = ''Cache-Control''"
  "CanonicalHeaderKey ''Content-Type'' = ''Content-Type''"
  "CanonicalHeaderKey ''Retry-After'' = ''Retry-After''"
  "CanonicalHeaderKey ''Vary'' = ''Vary''"
  "CanonicalHeaderKey ''X-Request-ID'' = ''X-Request-Id''"
  "CanonicalHeaderKey ''Access-Control-Allow-Origin'' = ''Access-Control-Allow-Origin''"
  "CanonicalHeaderKey ''Access-Control-Allow-Credentials'' = ''Access-Control-Allow-Credentials''"
  "CanonicalHeaderKey ''Access-Control-Expose-Headers'' = ''Access-Control-Expose-Headers''"
  "CanonicalHeaderKey ''Access-Control-Allow-Methods'' = ''Access-Control-Allow-Methods''"
  "CanonicalHeaderKey ''Access-Control-Allow-Headers'' = ''Access-Control-Allow-Headers''"
  "CanonicalHeaderKey ''Access-Control-Max-Age'' = ''Access-Control-Max-Age''"
  by code_simp+

section \<open>Requests and responses\<close>

record token_info =
  Scopes :: "string list"
  Expiration :: int
  UserID :: string
  issuer :: string

record Request =
  Method :: string
  Host :: string
  RemoteAddr :: string
  URLPath :: string
  TLS :: bool
  ReqHeader :: Header
  Token :: "token_info option"

end
