(* ===== verification/Forwarding.thy ===== *)
theory Forwarding
  imports Go_Net_Canon Go_Http
begin

text \<open>
  Component \<open>internal/forwarding\<close>: which address a request is attributed to.
  \<open>CanonicalClientIP\<close> starts from the TCP peer and, when proxy hops are trusted, walks the
  \<open>X-Forwarded-For\<close> chain from the right. Every error return of the code is a value of
  \<open>forward_error\<close>; the slice index that the code leaves unchecked is the error \<open>IndexPanic\<close>.
\<close>

datatype forward_error =
    InvalidRemoteAddress
  | NotAnIP string
  | UntrustedPeer
  | InvalidForwarded forward_error
  | TooManyAddresses
  | ShortChain
  | UntrustedProxy string
  | IndexPanic

definition maxForwardedAddresses :: nat where
  "maxForwardedAddresses = 64"

definition canonicalIP :: "string \<Rightarrow> (forward_error, string) result" where
  "canonicalIP value =
     (let value = TrimSpace value;
          value = (case SplitHostPort value of Some (host, _) \<Rightarrow> host | None \<Rightarrow> value)
      in case ParseIP (Trim value ''[]'') of
           None \<Rightarrow> Inl (NotAnIP value)
         | Some ip \<Rightarrow> Inr (IP_String ip))"

definition remoteIP :: "string \<Rightarrow> (forward_error, string) result" where
  "remoteIP address =
     (case SplitHostPort address of
        None \<Rightarrow> Inl InvalidRemoteAddress
      | Some (host, _) \<Rightarrow> canonicalIP host)"

fun any_contains :: "Prefix list \<Rightarrow> Addr \<Rightarrow> bool" where
  "any_contains [] address = False"
| "any_contains (prefix # prefixes) address =
     (if Contains prefix address then True else any_contains prefixes address)"

definition trustedAddress :: "string \<Rightarrow> Prefix list \<Rightarrow> bool" where
  "trustedAddress value prefixes =
     (case ParseAddr value of
        None \<Rightarrow> False
      | Some address \<Rightarrow> any_contains prefixes (Unmap address))"

text \<open>The two nested loops over the header lines and their comma-separated parts.\<close>

fun collect_values :: "string list \<Rightarrow> string list \<Rightarrow> (forward_error, string list) result" where
  "collect_values [] chain = Inr chain"
| "collect_values (v # vs) chain =
     (case canonicalIP v of
        Inl e \<Rightarrow> Inl (InvalidForwarded e)
      | Inr ip \<Rightarrow>
          if length (chain @ [ip]) > maxForwardedAddresses then Inl TooManyAddresses
          else collect_values vs (chain @ [ip]))"

fun collect_headers :: "string list \<Rightarrow> string list \<Rightarrow> (forward_error, string list) result" where
  "collect_headers [] chain = Inr chain"
| "collect_headers (forwarded # rest) chain =
     attempt (collect_values (SplitByte (CHR '','') forwarded) chain) (collect_headers rest)"

text \<open>The loop over the hops right of the chosen index.\<close>

fun check_proxies :: "Prefix list \<Rightarrow> string list \<Rightarrow> (forward_error, unit) result" where
  "check_proxies cidrs [] = Inr ()"
| "check_proxies cidrs (a # as) =
     (if \<not> trustedAddress a cidrs then Inl (UntrustedProxy a) else check_proxies cidrs as)"

definition CanonicalClientIP ::
  "Request \<Rightarrow> int \<Rightarrow> Prefix list \<Rightarrow> (forward_error, string) result" where
  "CanonicalClientIP request hops cidrs =
     attempt (remoteIP (RemoteAddr request)) (\<lambda>peer.
       if hops = 0 then Inr peer
       else if \<not> trustedAddress peer cidrs then Inl UntrustedPeer
       else attempt (collect_headers (Values (ReqHeader request) ''X-Forwarded-For'') []) (\<lambda>forwarded.
         let chain = forwarded @ [peer];
             index = int (length chain) - 1 - hops
         in if index < 0 then Inl ShortChain
            else attempt (check_proxies cidrs (drop (nat (index + 1)) chain)) (\<lambda>_.
              if int (length chain) \<le> index then Inl IndexPanic
              else Inr (chain ! nat index))))"

section \<open>The canonicaliser's contract\<close>

text \<open>
  What the callers of \<open>canonicalIP\<close> rely on: its results are its own fixed points and survive
  being written into a comma-separated header.
\<close>

locale canonicaliser =
  fixes canon :: "string \<Rightarrow> ('e, string) result"
  assumes canon_fix: "canon v = Inr a \<Longrightarrow> canon a = Inr a"
    and canon_no_comma: "canon v = Inr a \<Longrightarrow> CHR '','' \<notin> set a"
begin

lemma traverse_fix: "traverse canon vs = Inr as \<Longrightarrow> traverse canon as = Inr as"
  by (auto simp: traverse_Inr_iff list_all2_conv_all_nth intro: canon_fix)

lemma header_roundtrip:
  assumes "traverse canon vs = Inr as" "as \<noteq> []"
  shows "traverse canon (SplitByte (CHR '','') (JoinByte (CHR '','') as)) = Inr as"
proof -
  have "\<forall>w\<in>set as. CHR '','' \<notin> set w"
    using assms(1) by (auto simp: traverse_Inr_iff dest: list_all2_right_ex canon_no_comma)
  then have "SplitByte (CHR '','') (JoinByte (CHR '','') as) = as"
    using assms(2) by (intro SplitByte_JoinByte)
  then show ?thesis using assms(1) traverse_fix by simp
qed

end

lemma canonicalIP_Inr: "canonicalIP v = Inr a \<Longrightarrow> \<exists>w. a = IP_String w"
  by (auto simp: canonicalIP_def Let_def split: option.splits)

text \<open>
  An address text is left alone by the trimming, and is not mistaken for \<open>host:port\<close> in a way
  that changes the address: only an IPv4 text has no colon, and an IPv6 text has at least two.
\<close>

lemma LastCut_Some: "LastCut c s = Some (a, b) \<longleftrightarrow> s = a @ c # b \<and> c \<notin> set b"
proof
  assume "LastCut c s = Some (a, b)"
  then have "CutByte c (rev s) = (rev b, rev a, True)"
    by (auto simp: LastCut_def split: prod.splits if_splits)
  then have "c \<notin> set (rev b)" "rev s = rev b @ c # rev a"
    using CutByte_cases by fastforce+
  then show "s = a @ c # b \<and> c \<notin> set b" by (metis append.assoc append_Cons append_Nil rev_append rev_rev_ident rev.simps(2) set_rev)
next
  assume "s = a @ c # b \<and> c \<notin> set b"
  then show "LastCut c s = Some (a, b)"
    by (simp add: LastCut_def CutByte_append)
qed

lemma LastCut_None: "LastCut c s = None \<longleftrightarrow> c \<notin> set s"
proof (cases "LastCut c s")
  case (Some p)
  obtain a b where "p = (a, b)" by (cases p)
  with Some have "s = a @ c # b" using LastCut_Some by blast
  with Some show ?thesis by simp
next
  case None
  obtain a b found where cut: "CutByte c (rev s) = (a, b, found)" by (metis prod_cases3)
  with None have "\<not> found" by (auto simp: LastCut_def split: if_splits)
  with CutByte_cases [OF cut] have "c \<notin> set (rev s)" by simp
  with None show ?thesis by simp
qed

lemma count_JoinByte: "length ws \<le> count_list (JoinByte c ws) c + 1"
  by (induction c ws rule: JoinByte.induct) auto

lemma string6_colons: "2 \<le> count_list (string6 w) (CHR '':'')"
proof (cases rule: string6_cases [of w])
  case all
  then show ?thesis
    using count_JoinByte [of "map (digits 16) (groups6 w)" "CHR '':''"] by simp
qed simp

lemma string4_no_colon: "CHR '':'' \<notin> set (string4 w)"
  using string4_chars [of "CHR '':''" w] by (auto simp: is_digit_def byte_def)

lemma IP_String_not_bracket: "c \<in> set ''[],'' \<Longrightarrow> c \<notin> set (IP_String w)"
  using IP_String_chars [of c w] by (auto simp: addr_char_def is_digit_def byte_def)

lemma SplitHostPort_string6: "\<not> is4in6 w \<Longrightarrow> SplitHostPort (IP_String w) = None"
proof -
  assume w: "\<not> is4in6 w"
  have br: "hd (IP_String w) \<noteq> CHR ''[''"
    using IP_String_not_bracket [of "CHR ''[''" w] hd_in_set [OF IP_String_ne [of w]] by force
  have "\<exists>a b. LastCut (CHR '':'') (IP_String w) = Some (a, b) \<and> CHR '':'' \<in> set a"
  proof -
    obtain a b where ab: "LastCut (CHR '':'') (IP_String w) = Some (a, b)"
      using string6_colon [of w] LastCut_None [of "CHR '':''" "IP_String w"] w
      by (cases "LastCut (CHR '':'') (IP_String w)") (auto simp: IP_String_def)
    then have "IP_String w = a @ CHR '':'' # b" "CHR '':'' \<notin> set b"
      by (simp_all add: LastCut_Some)
    then have "2 \<le> count_list a (CHR '':'') + 1"
      using string6_colons [of w] w by (simp add: IP_String_def)
    then have "CHR '':'' \<in> set a" using count_notin [of "CHR '':''" a] by fastforce
    with ab show ?thesis by blast
  qed
  with br show ?thesis by (auto simp: SplitHostPort_def)
qed

lemma canonicalIP_IP_String: "canonicalIP (IP_String w) = Inr (IP_String w)"
proof -
  have "SplitHostPort (IP_String w) = None"
  proof (cases "is4in6 w")
    case True
    then have "LastCut (CHR '':'') (IP_String w) = None"
      using string4_no_colon by (simp add: LastCut_None IP_String_def)
    then show ?thesis by (simp add: SplitHostPort_def)
  next
    case False
    then show ?thesis by (rule SplitHostPort_string6)
  qed
  moreover have "Trim (IP_String w) ''[]'' = IP_String w"
    by (rule Trim_id) (use IP_String_not_bracket in auto)
  ultimately show ?thesis
    by (simp add: canonicalIP_def TrimSpace_graph IP_String_graph ParseIP_IP_String)
qed

interpretation ip: canonicaliser canonicalIP
proof unfold_locales
  fix v a
  assume "canonicalIP v = Inr a"
  then obtain w where "a = IP_String w" using canonicalIP_Inr by blast
  then show "canonicalIP a = Inr a" "CHR '','' \<notin> set a"
    using canonicalIP_IP_String IP_String_not_bracket by auto
qed

section \<open>The chain\<close>

text \<open>The addresses a request claims to have come through, in header order, before parsing.\<close>

definition forwarded_pieces :: "Request \<Rightarrow> string list" where
  "forwarded_pieces request =
     concat (map (SplitByte (CHR '','')) (Values (ReqHeader request) ''X-Forwarded-For''))"

lemma collect_values_Inr:
  "length chain \<le> maxForwardedAddresses \<Longrightarrow>
    collect_values vs chain = Inr c \<longleftrightarrow>
      (\<exists>ips. traverse canonicalIP vs = Inr ips \<and> c = chain @ ips \<and> length c \<le> maxForwardedAddresses)"
proof (induction vs arbitrary: chain)
  case Nil
  then show ?case by auto
next
  case (Cons v vs)
  show ?case
  proof (cases "canonicalIP v")
    case (Inl e)
    then show ?thesis by simp
  next
    case (Inr ip)
    show ?thesis
    proof (cases "length (chain @ [ip]) > maxForwardedAddresses")
      case True
      with Inr show ?thesis by (auto simp: attempt_Inr_iff)
    next
      case False
      with Inr Cons.IH [of "chain @ [ip]"] show ?thesis by (auto simp: attempt_Inr_iff)
    qed
  qed
qed

lemma collect_headers_Inr:
  "length chain \<le> maxForwardedAddresses \<Longrightarrow>
    collect_headers hs chain = Inr c \<longleftrightarrow>
      (\<exists>ips. traverse canonicalIP (concat (map (SplitByte (CHR '','')) hs)) = Inr ips \<and>
         c = chain @ ips \<and> length c \<le> maxForwardedAddresses)"
proof (induction hs arbitrary: chain)
  case Nil
  then show ?case by auto
next
  case (Cons h hs)
  then show ?case
    by (auto simp: attempt_Inr_iff collect_values_Inr traverse_append)
qed

lemma collect_values_no_panic: "collect_values vs chain \<noteq> Inl IndexPanic"
  by (induction vs arbitrary: chain) (auto split: sum.splits)

lemma collect_headers_no_panic: "collect_headers hs chain \<noteq> Inl IndexPanic"
  by (induction hs arbitrary: chain) (auto simp: attempt_Inl_iff collect_values_no_panic)

lemma check_proxies_Inr: "check_proxies cidrs as = Inr u \<longleftrightarrow> (\<forall>a\<in>set as. trustedAddress a cidrs)"
  by (induction as) auto

lemma check_proxies_no_panic: "check_proxies cidrs as \<noteq> Inl IndexPanic"
  by (induction as) auto

lemma remoteIP_no_panic: "remoteIP a \<noteq> Inl IndexPanic"
  by (auto simp: remoteIP_def canonicalIP_def Let_def split: option.splits)

lemma remoteIP_canonical: "remoteIP a = Inr ip \<Longrightarrow> canonicalIP ip = Inr ip"
  by (auto simp: remoteIP_def split: option.splits intro: ip.canon_fix)

text \<open>Splitting a list at a position counted from its end.\<close>

lemma split_from_end:
  assumes "k < length xs"
  shows "(\<exists>front. xs = front @ y # post \<and> length post = k) \<longleftrightarrow>
    xs ! (length xs - 1 - k) = y \<and> drop (length xs - k) xs = post"
proof
  assume "\<exists>front. xs = front @ y # post \<and> length post = k"
  then show "xs ! (length xs - 1 - k) = y \<and> drop (length xs - k) xs = post" by auto
next
  let ?i = "length xs - 1 - k"
  assume r: "xs ! ?i = y \<and> drop (length xs - k) xs = post"
  have "xs = take ?i xs @ xs ! ?i # drop (Suc ?i) xs"
    using assms by (intro id_take_nth_drop) auto
  moreover have "Suc ?i = length xs - k" using assms by auto
  ultimately show "\<exists>front. xs = front @ y # post \<and> length post = k"
    using r assms by (metis diff_diff_cancel length_drop less_imp_le_nat)
qed

lemma CanonicalClientIP_chain:
  assumes "0 < hops"
  shows "CanonicalClientIP request hops cidrs = Inr ip \<longleftrightarrow>
    (\<exists>peer ips front trusted.
       remoteIP (RemoteAddr request) = Inr peer \<and>
       traverse canonicalIP (forwarded_pieces request) = Inr ips \<and>
       length ips \<le> maxForwardedAddresses \<and>
       ips @ [peer] = front @ ip # trusted \<and> length trusted = nat hops \<and>
       (\<forall>a\<in>set trusted. trustedAddress a cidrs))"
proof (cases "remoteIP (RemoteAddr request)")
  case (Inl e)
  then show ?thesis by (simp add: CanonicalClientIP_def)
next
  case (Inr peer)
  have body: "CanonicalClientIP request hops cidrs = Inr ip \<longleftrightarrow>
      trustedAddress peer cidrs \<and>
      (\<exists>ips. traverse canonicalIP (forwarded_pieces request) = Inr ips \<and>
         length ips \<le> maxForwardedAddresses \<and> nat hops \<le> length ips \<and>
         (\<forall>a\<in>set (drop (length ips + 1 - nat hops) (ips @ [peer])). trustedAddress a cidrs) \<and>
         (ips @ [peer]) ! (length ips - nat hops) = ip)"
  proof -
    have nat1: "nat (int (length ips) - hops + 1) = length ips + 1 - nat hops" for ips :: "string list"
      using assms by linarith
    have nat2: "nat (int (length ips) - hops) = length ips - nat hops" for ips :: "string list"
      using assms by linarith
    have lt: "int n < hops \<longleftrightarrow> \<not> nat hops \<le> n" for n
      by linarith
    show ?thesis
      using assms Inr
      by (auto simp: CanonicalClientIP_def attempt_Inr_iff collect_headers_Inr check_proxies_Inr
          forwarded_pieces_def Let_def nat1 nat2 lt split: if_splits; blast)
  qed
  have split: "(\<exists>front trusted. ips @ [peer] = front @ ip # trusted \<and> length trusted = nat hops \<and>
        (\<forall>a\<in>set trusted. trustedAddress a cidrs)) \<longleftrightarrow>
      nat hops \<le> length ips \<and>
      (\<forall>a\<in>set (drop (length ips + 1 - nat hops) (ips @ [peer])). trustedAddress a cidrs) \<and>
      (ips @ [peer]) ! (length ips - nat hops) = ip" for ips
  proof (cases "nat hops \<le> length ips")
    case True
    define xs where "xs = ips @ [peer]"
    have n: "length xs = length ips + 1" by (simp add: xs_def)
    let ?Q = "\<lambda>post. \<forall>a\<in>set post. trustedAddress a cidrs"
    have E: "(\<exists>front. xs = front @ ip # post \<and> length post = nat hops) \<longleftrightarrow>
        xs ! (length ips - nat hops) = ip \<and> drop (length ips + 1 - nat hops) xs = post" for post
      using split_from_end [of "nat hops" xs ip post] True by (simp add: n)
    have "(\<exists>front post. xs = front @ ip # post \<and> length post = nat hops \<and> ?Q post) \<longleftrightarrow>
        (\<exists>post. (\<exists>front. xs = front @ ip # post \<and> length post = nat hops) \<and> ?Q post)"
      by blast
    also have "\<dots> \<longleftrightarrow> xs ! (length ips - nat hops) = ip \<and> ?Q (drop (length ips + 1 - nat hops) xs)"
      by (simp only: E) auto
    finally show ?thesis unfolding xs_def [symmetric] using True by auto
  next
    case False
    have "False" if "ips @ [peer] = front @ ip # post" "length post = nat hops" for front post
      using arg_cong [OF that(1), of length] that(2) False by simp
    then show ?thesis using False by blast
  qed
  have last: "trustedAddress peer cidrs"
    if "ips @ [peer] = front @ ip # trusted" "length trusted = nat hops"
      "\<forall>a\<in>set trusted. trustedAddress a cidrs" for ips front trusted
  proof -
    have "trusted \<noteq> []" using that(2) assms by auto
    then have "last trusted = peer" using that(1) by (metis last_ConsR last_appendR last_snoc list.distinct(1))
    with \<open>trusted \<noteq> []\<close> that(3) show ?thesis by auto
  qed
  have "(\<exists>front trusted. ips @ [peer] = front @ ip # trusted \<and> length trusted = nat hops \<and>
        (\<forall>a\<in>set trusted. trustedAddress a cidrs)) \<Longrightarrow> trustedAddress peer cidrs" for ips
    using last by blast
  then show ?thesis unfolding body using Inr split by (simp, blast)
qed

section \<open>Properties\<close>

text \<open>
  The specification: with \<open>n\<close> trusted hops the client is the address that stands \<open>n\<close> places left
  of the TCP peer in the chain, and everything right of it is trusted; with none it is the peer.
\<close>

definition attributed_to :: "Request \<Rightarrow> nat \<Rightarrow> Prefix list \<Rightarrow> string \<Rightarrow> bool" where
  "attributed_to request n cidrs client \<longleftrightarrow>
     (\<exists>peer. remoteIP (RemoteAddr request) = Inr peer \<and>
       (if n = 0 then client = peer
        else \<exists>ips front trusted.
          traverse canonicalIP (forwarded_pieces request) = Inr ips \<and>
          length ips \<le> maxForwardedAddresses \<and>
          ips @ [peer] = front @ client # trusted \<and> length trusted = n \<and>
          (\<forall>a\<in>set trusted. trustedAddress a cidrs)))"

lemma CanonicalClientIP_attributed:
  "0 \<le> hops \<Longrightarrow>
    CanonicalClientIP request hops cidrs = Inr client \<longleftrightarrow> attributed_to request (nat hops) cidrs client"
proof (cases "hops = 0")
  case True
  then show ?thesis by (auto simp: attributed_to_def CanonicalClientIP_def attempt_Inr_iff)
next
  case False
  moreover assume "0 \<le> hops"
  ultimately have "0 < hops" by simp
  from CanonicalClientIP_chain [OF this, of request cidrs client] \<open>0 < hops\<close>
  show ?thesis by (auto simp: attributed_to_def)
qed

text \<open>A request through one proxy, and the prefix that proxy is in.\<close>

definition proxied_request :: "string list \<Rightarrow> Request" where
  "proxied_request forwarded =
     \<lparr>Method = ''POST'', Host = ''localhost'', RemoteAddr = ''192.0.2.10:4321'', URLPath = ''/mcp'',
      TLS = False, ReqHeader = no_header(''X-Forwarded-For'' := forwarded), Token = None\<rparr>"

definition proxy_cidrs :: "Prefix list" where
  "proxy_cidrs = [Prefix (Addr4 0xC0000200) 24]"

lemma canonicalIP_eval [go_eval]:
  "canonicalIP ''192.0.2.10'' = Inr ''192.0.2.10''"
  "canonicalIP ''198.51.100.77'' = Inr ''198.51.100.77''"
  "canonicalIP ''203.0.113.5'' = Inr ''203.0.113.5''"
  by (simp_all add: canonicalIP_def go_eval)

lemma proxied_request_client:
  "CanonicalClientIP (proxied_request [''198.51.100.77'']) 1 proxy_cidrs = Inr ''198.51.100.77''"
  by (simp add: CanonicalClientIP_def proxied_request_def proxy_cidrs_def remoteIP_def
      trustedAddress_def Values_def maxForwardedAddresses_def go_eval)

text \<open>C4: with a configured hop count, \<open>CanonicalClientIP\<close> returns an address exactly when the
  specification attributes the request to it: the peer parses, every part of every
  \<open>X-Forwarded-For\<close> line parses, at most 64 of them, the address stands \<open>hops\<close> places left of the
  peer, and the peer and every hop between lie in the trusted prefixes.\<close>

theorem client_ip_attribution:
  assumes "0 \<le> hops"
  shows "CanonicalClientIP request hops cidrs = Inr client \<longleftrightarrow>
    attributed_to request (nat hops) cidrs client"
  using assms by (rule CanonicalClientIP_attributed)

theorem client_ip_attribution_witness:
  "attributed_to (proxied_request [''198.51.100.77'']) (nat 1) proxy_cidrs ''198.51.100.77''"
  using client_ip_attribution [of 1 "proxied_request [''198.51.100.77'']" proxy_cidrs "''198.51.100.77''"]
    proxied_request_client by simp

text \<open>Addresses added at the far end of the chain change nothing the specification reads.\<close>

lemma traverse_length: "traverse f xs = Inr ys \<Longrightarrow> length ys = length xs"
  by (auto simp: traverse_Inr_iff list_all2_lengthD)

lemma attributed_longer_chain:
  assumes "RemoteAddr spoofed = RemoteAddr request"
    and "forwarded_pieces spoofed = added @ forwarded_pieces request"
    and "attributed_to request n cidrs client"
  shows "attributed_to spoofed n cidrs other \<Longrightarrow> other = client"
    and "traverse canonicalIP added = Inr us \<Longrightarrow>
      length (forwarded_pieces spoofed) \<le> maxForwardedAddresses \<Longrightarrow>
      attributed_to spoofed n cidrs client"
proof -
  obtain peer where peer: "remoteIP (RemoteAddr request) = Inr peer"
    using assms(3) by (auto simp: attributed_to_def)
  show "other = client" if other: "attributed_to spoofed n cidrs other"
  proof (cases "n = 0")
    case True
    then show ?thesis using other assms by (auto simp: attributed_to_def)
  next
    case False
    obtain ips front trusted where r: "traverse canonicalIP (forwarded_pieces request) = Inr ips"
        "ips @ [peer] = front @ client # trusted" "length trusted = n"
      using assms(3) False peer by (auto simp: attributed_to_def)
    obtain ips' front' trusted' where s: "traverse canonicalIP (forwarded_pieces spoofed) = Inr ips'"
        "ips' @ [peer] = front' @ other # trusted'" "length trusted' = n"
      using other False peer assms(1) by (auto simp: attributed_to_def)
    obtain us where "ips' = us @ ips"
      using s(1) r(1) by (auto simp: assms(2) traverse_append attempt_Inr_iff)
    then have "(us @ front) @ client # trusted = front' @ other # trusted'"
      using r(2) s(2) by simp
    then show ?thesis
      using append_eq_append_conv [of "us @ front" front' "client # trusted" "other # trusted'"]
        r(3) s(3) by simp
  qed
  show "attributed_to spoofed n cidrs client"
    if us: "traverse canonicalIP added = Inr us"
      and len: "length (forwarded_pieces spoofed) \<le> maxForwardedAddresses"
  proof (cases "n = 0")
    case True
    then show ?thesis using assms by (auto simp: attributed_to_def)
  next
    case False
    obtain ips front trusted where r: "traverse canonicalIP (forwarded_pieces request) = Inr ips"
        "ips @ [peer] = front @ client # trusted" "length trusted = n"
        "\<forall>a\<in>set trusted. trustedAddress a cidrs"
      using assms(3) False peer by (auto simp: attributed_to_def)
    have s: "traverse canonicalIP (forwarded_pieces spoofed) = Inr (us @ ips)"
      using us r(1) by (simp add: assms(2) traverse_append)
    moreover have "(us @ ips) @ [peer] = (us @ front) @ client # trusted" using r(2) by simp
    ultimately show ?thesis
      using False peer assms(1) r(3,4) len traverse_length [OF s]
      unfolding attributed_to_def by metis
  qed
qed

lemma attributed_source: "attributed_to request n cidrs client \<Longrightarrow> \<exists>v. canonicalIP v = Inr client"
proof -
  assume att: "attributed_to request n cidrs client"
  then obtain peer where peer: "remoteIP (RemoteAddr request) = Inr peer"
    by (auto simp: attributed_to_def)
  then have "\<exists>v. canonicalIP v = Inr peer" by (auto simp: remoteIP_def split: option.splits)
  moreover have "\<exists>v. canonicalIP v = Inr a" if "traverse canonicalIP vs = Inr ips" "a \<in> set ips" for vs ips a
    using that by (auto simp: traverse_Inr_iff dest: list_all2_right_ex)
  moreover have "client = peer \<or> (\<exists>ips. traverse canonicalIP (forwarded_pieces request) = Inr ips \<and> client \<in> set ips)"
    using att peer by (auto simp: attributed_to_def split: if_splits)
      (metis UnE in_set_conv_decomp set_append set_ConsD empty_iff list.set(1))
  ultimately show ?thesis by blast
qed

lemma CanonicalClientIP_no_panic:
  "0 \<le> hops \<Longrightarrow> CanonicalClientIP request hops cidrs \<noteq> Inl IndexPanic"
  by (auto simp: CanonicalClientIP_def attempt_Inl_iff attempt_Inr_iff Let_def remoteIP_no_panic
      collect_headers_no_panic check_proxies_no_panic split: if_splits)

text \<open>C25: what a client puts in front of the chain (more header lines, or more addresses before
  the ones the trusted proxies appended) never changes the address a request is attributed to: the
  longer request gets the same address or an error, and it gets the same address whenever the added
  parts are addresses and the chain stays within 64.\<close>

theorem client_ip_unspoofable:
  assumes "0 \<le> hops"
    and "RemoteAddr spoofed = RemoteAddr request"
    and "forwarded_pieces spoofed = added @ forwarded_pieces request"
    and "CanonicalClientIP request hops cidrs = Inr client"
  shows "CanonicalClientIP spoofed hops cidrs \<in> insert (Inr client) (range Inl) \<and>
    (succeeds (traverse canonicalIP added) \<longrightarrow>
     length (forwarded_pieces spoofed) \<le> maxForwardedAddresses \<longrightarrow>
     CanonicalClientIP spoofed hops cidrs = Inr client)"
proof -
  have att: "attributed_to request (nat hops) cidrs client"
    using assms(1,4) CanonicalClientIP_attributed by blast
  have "other = client" if "CanonicalClientIP spoofed hops cidrs = Inr other" for other
    using that assms(1) CanonicalClientIP_attributed attributed_longer_chain(1) [OF assms(2,3) att]
    by blast
  then have "CanonicalClientIP spoofed hops cidrs \<in> insert (Inr client) (range Inl)"
    by (cases "CanonicalClientIP spoofed hops cidrs") auto
  moreover have "CanonicalClientIP spoofed hops cidrs = Inr client"
    if "succeeds (traverse canonicalIP added)" "length (forwarded_pieces spoofed) \<le> maxForwardedAddresses"
    using that assms(1) CanonicalClientIP_attributed attributed_longer_chain(2) [OF assms(2,3) att]
    by (auto simp: succeeds_iff)
  ultimately show ?thesis by blast
qed

theorem client_ip_unspoofable_witness:
  "CanonicalClientIP (proxied_request [''203.0.113.5'', ''198.51.100.77'']) 1 proxy_cidrs =
     Inr ''198.51.100.77''"
proof -
  let ?long = "proxied_request [''203.0.113.5'', ''198.51.100.77'']"
  let ?short = "proxied_request [''198.51.100.77'']"
  have pieces: "forwarded_pieces ?long = [''203.0.113.5''] @ forwarded_pieces ?short"
    by (simp add: forwarded_pieces_def proxied_request_def Values_def)
  have "RemoteAddr ?long = RemoteAddr ?short" by (simp add: proxied_request_def)
  moreover have "succeeds (traverse canonicalIP [''203.0.113.5''])" by (simp add: go_eval)
  moreover have "length (forwarded_pieces ?long) \<le> maxForwardedAddresses"
    by (simp add: forwarded_pieces_def proxied_request_def Values_def maxForwardedAddresses_def)
  ultimately show ?thesis
    using client_ip_unspoofable [OF _ _ pieces proxied_request_client] by simp
qed

text \<open>An address \<open>CanonicalClientIP\<close> returns is in canonical form, so sending it upstream as the
  \<open>X-Forwarded-For\<close> value and parsing it there gives it back, and it has only the characters of an
  address; and with a configured hop count the unchecked slice index is always in range.\<close>

theorem client_ip_canonical:
  assumes "0 \<le> hops"
  shows "CanonicalClientIP request hops cidrs \<noteq> Inl IndexPanic \<and>
    (\<forall>client. CanonicalClientIP request hops cidrs = Inr client \<longrightarrow>
       canonicalIP client = Inr client \<and> list_all addr_char client \<and>
       traverse canonicalIP (SplitByte (CHR '','') client) = Inr [client])"
proof (intro conjI allI impI)
  show "CanonicalClientIP request hops cidrs \<noteq> Inl IndexPanic"
    using assms by (rule CanonicalClientIP_no_panic)
next
  fix client
  assume "CanonicalClientIP request hops cidrs = Inr client"
  then obtain v where v: "canonicalIP v = Inr client"
    using assms CanonicalClientIP_attributed attributed_source by blast
  then show "canonicalIP client = Inr client" by (rule ip.canon_fix)
  show "list_all addr_char client"
    using canonicalIP_Inr [OF v] IP_String_chars by (auto simp: list_all_iff)
  show "traverse canonicalIP (SplitByte (CHR '','') client) = Inr [client]"
    using ip.header_roundtrip [of "[v]" "[client]"] v by simp
qed

theorem client_ip_canonical_witness:
  "canonicalIP ''198.51.100.77'' = Inr ''198.51.100.77'' \<and> list_all addr_char ''198.51.100.77''"
  using client_ip_canonical [of 1 "proxied_request [''198.51.100.77'']" proxy_cidrs]
    proxied_request_client by simp

end
