(* ===== verification/Go_Url.thy ===== *)
theory Go_Url
  imports Go_Net
begin

text \<open>
  What the program uses of \<open>net/url\<close> once a URL is parsed: the fields of \<open>url.URL\<close>, \<open>Hostname\<close>,
  \<open>IsAbs\<close> and the text of a URL that has only a scheme and a host. The parsers themselves
  (\<open>url.Parse\<close>, \<open>url.ParseRequestURI\<close>) and the Unicode case tables behind \<open>strings.ToLower\<close> are
  fields of \<open>golib\<close>, an argument of every definition that reaches them: the theorems hold for every
  such function, and a hypothesis names what is needed of one where anything is.
\<close>

record URL =
  Scheme :: string
  Opaque :: string
  User :: "string option"
  HostPort :: string
  Path :: string
  RawPath :: string
  RawQuery :: string
  Fragment :: string

record golib =
  lowerUnicode :: "string \<Rightarrow> string"
  urlParse :: "string \<Rightarrow> URL option"
  parseRequestURI :: "string \<Rightarrow> URL option"

definition IsAbs :: "URL \<Rightarrow> bool" where
  "IsAbs u \<longleftrightarrow> Scheme u \<noteq> []"

fun validOptionalPort :: "string \<Rightarrow> bool" where
  "validOptionalPort [] = True"
| "validOptionalPort (c # cs) = (c = CHR '':'' \<and> list_all is_digit cs)"

definition Hostname :: "URL \<Rightarrow> string" where
  "Hostname u =
     (let host = (case LastCut (CHR '':'') (HostPort u) of
                    None \<Rightarrow> HostPort u
                  | Some (h, port) \<Rightarrow>
                      if validOptionalPort (CHR '':'' # port) then h else HostPort u)
      in if HasPrefix host ''['' \<and> HasSuffix host '']'' then take (length host - 2) (tl host) else host)"

lemma Hostname_Path [simp]: "Hostname (u\<lparr>Path := p\<rparr>) = Hostname u"
proof -
  have "HostPort (u\<lparr>Path := p\<rparr>) = HostPort u" by simp
  then show ?thesis unfolding Hostname_def by (simp only:)
qed

text \<open>The bytes a host is printed with unescaped; every other byte becomes \<open>%XX\<close>.\<close>

definition host_char :: "char \<Rightarrow> bool" where
  "host_char c \<longleftrightarrow>
     is_digit c \<or> is_lower c \<or> is_upper c \<or> c \<in> set ''!$&()*+,;=:[]<>-_.~'' \<or> byte c = 39 \<or> byte c = 34"

definition hex_upper :: "nat \<Rightarrow> char" where
  "hex_upper d = char_of (if d < 10 then 48 + d else 55 + d)"

definition escape_host :: "string \<Rightarrow> string" where
  "escape_host h =
     concat (map (\<lambda>c. if host_char c then [c]
                      else [CHR ''%'', hex_upper (byte c div 16), hex_upper (byte c mod 16)]) h)"

text \<open>\<open>(&url.URL{Scheme: scheme, Host: host}).String()\<close>.\<close>

definition origin_string :: "string \<Rightarrow> string \<Rightarrow> string" where
  "origin_string scheme host =
     (if scheme = [] then [] else scheme @ '':'') @
     (if scheme \<noteq> [] \<or> host \<noteq> []
      then (if host \<noteq> [] then ''//'' @ escape_host host else [])
      else [])"

text \<open>\<open>strings.EqualFold\<close> against an ASCII string: only \<open>U+017F\<close> and \<open>U+212A\<close> fold to ASCII letters.\<close>

fun EqualFold :: "string \<Rightarrow> string \<Rightarrow> bool" where
  "EqualFold s [] = (s = [])"
| "EqualFold [] (c # cs) = False"
| "EqualFold (b # s) (c # cs) =
     (if byte b < 128 then ascii_lower b = ascii_lower c \<and> EqualFold s cs
      else if HasPrefix (b # s) [CHR 0xC5, CHR 0xBF] then ascii_lower c = CHR ''s'' \<and> EqualFold (drop 1 s) cs
      else if HasPrefix (b # s) [CHR 0xE2, CHR 0x84, CHR 0xAA] then ascii_lower c = CHR ''k'' \<and> EqualFold (drop 2 s) cs
      else False)"

definition lower :: "golib \<Rightarrow> string \<Rightarrow> string" where
  "lower L s = ToLower (lowerUnicode L) s"

end
