(* ===== verification/Config.thy ===== *)
theory Config
  imports Go_Url Go_Net_Canon "HOL-Library.Multiset"
begin

text \<open>
  Component \<open>internal/config\<close>: reading and validating the environment. \<open>LoadFrom\<close> is transcribed
  check by check in the order of the code. An error message is the text of the code's format
  string with its \<open>%s\<close> and \<open>%d\<close> arguments filled in; a \<open>%q\<close> argument and a wrapped error are kept
  as values. The one place whose result depends on Go's map iteration, the loop over the three
  OAuth URLs, takes the order of the iteration as an argument.
\<close>

section \<open>Data\<close>

datatype LogLevel = LevelDebug | LevelInfo | LevelWarn | LevelError

text \<open>\<open>slog.Level\<close> orders them by these numbers.\<close>

fun severity :: "LogLevel \<Rightarrow> int" where
  "severity LevelDebug = -4"
| "severity LevelInfo = 0"
| "severity LevelWarn = 4"
| "severity LevelError = 8"

instantiation LogLevel :: linorder
begin

definition less_eq_LogLevel :: "LogLevel \<Rightarrow> LogLevel \<Rightarrow> bool" where
  "less_eq_LogLevel a b \<longleftrightarrow> severity a \<le> severity b"

definition less_LogLevel :: "LogLevel \<Rightarrow> LogLevel \<Rightarrow> bool" where
  "less_LogLevel a b \<longleftrightarrow> severity a < severity b"

instance
proof
  fix a b :: LogLevel
  show "a \<le> b \<Longrightarrow> b \<le> a \<Longrightarrow> a = b"
    by (cases a; cases b; simp add: less_eq_LogLevel_def)
qed (auto simp: less_eq_LogLevel_def less_LogLevel_def)

end

record Config =
  Host :: string
  Port :: int
  AllowedHosts :: "string list"
  AllowedOrigins :: "string list"
  TrustProxyHops :: int
  TrustedProxyCIDRs :: "Prefix list"
  SynthientBaseURL :: "URL option"
  SynthientGRPCEndpoint :: string
  SynthientAPIKey :: string
  AuthMode :: string
  OAuthIssuerURL :: string
  OAuthJWKSURL :: string
  OAuthAudience :: string
  MCPResourceURL :: string
  OAuthRequiredScopes :: "string list"
  ForwardClientIP :: bool
  CORSEnabled :: bool
  LegacyToolNames :: bool
  RequestTimeout :: int
  StreamTimeout :: int
  ReadTimeout :: int
  WriteTimeout :: int
  IdleTimeout :: int
  ShutdownTimeout :: int
  MaxRequestBody :: int
  MaxHeaderBytes :: int
  MaxConcurrentRequests :: int
  MaxConcurrentPerUser :: int
  MaxRequestsPerMinute :: int
  MaxAPIKeyLength :: int
  MetricsEnabled :: bool
  LogLevel :: LogLevel
  LogJSON :: bool

datatype config_error =
    Message string
  | Quoted string string string
  | ParseFailed string
  | Wrapped string config_error

type_synonym environment = "string \<Rightarrow> string option"

definition defaultAllowedHosts :: "string list" where
  "defaultAllowedHosts = [''localhost'', ''127.0.0.1'', ''::1'']"

definition Millisecond :: int where "Millisecond = 1000000"

section \<open>Reading one variable\<close>

definition get :: "environment \<Rightarrow> string \<Rightarrow> string \<Rightarrow> string" where
  "get lookup name fallback = (case lookup name of Some value \<Rightarrow> value | None \<Rightarrow> fallback)"

definition integer ::
  "environment \<Rightarrow> string \<Rightarrow> int \<Rightarrow> int \<Rightarrow> int \<Rightarrow> (config_error, int) result" where
  "integer lookup name fallback lo hi =
     (case lookup name of
        None \<Rightarrow> Inr fallback
      | Some value \<Rightarrow>
          if value = [] then Inr fallback
          else (let bad = Message (name @ '' must be an integer between '' @ Itoa lo @ '' and '' @ Itoa hi)
                in case Atoi value of
                     None \<Rightarrow> Inl bad
                   | Some parsed \<Rightarrow> if parsed < lo \<or> hi < parsed then Inl bad else Inr parsed))"

definition boolean :: "environment \<Rightarrow> string \<Rightarrow> bool \<Rightarrow> (config_error, bool) result" where
  "boolean lookup name fallback =
     (case lookup name of
        None \<Rightarrow> Inr fallback
      | Some value \<Rightarrow>
          if value = [] then Inr fallback
          else (case ParseBool value of
                  None \<Rightarrow> Inl (Message (name @ '' must be true or false''))
                | Some parsed \<Rightarrow> Inr parsed))"

definition normalizeHostname :: "golib \<Rightarrow> string \<Rightarrow> string" where
  "normalizeHostname L host = lower L (Trim (TrimSpace host) ''[]'')"

definition validateListenHost :: "string \<Rightarrow> (config_error, unit) result" where
  "validateListenHost host =
     (if host = [] \<or> ContainsAny host ('' /'' @ [CHR 0x5C, CHR 0x09, CHR 0x0D, CHR 0x0A])
      then Inl (Message ''HOST must be a hostname or IP address without a port'')
      else if ContainsAny host '':'' \<and> ParseIP host = None
      then Inl (Message ''HOST must not include a port'')
      else Inr ())"

fun host_items :: "golib \<Rightarrow> string \<Rightarrow> string list \<Rightarrow> (config_error, string list) result" where
  "host_items L name [] = Inr []"
| "host_items L name (raw # items) =
     (let item = normalizeHostname L raw
      in if item = [] then host_items L name items
         else if \<not> succeeds (validateListenHost item)
         then Inl (Quoted (name @ '' contains invalid host '') item [])
         else attempt (host_items L name items) (\<lambda>rest. Inr (item # rest)))"

definition host_list ::
  "golib \<Rightarrow> environment \<Rightarrow> string \<Rightarrow> string list \<Rightarrow> (config_error, string list) result" where
  "host_list L lookup name fallback =
     (case lookup name of
        None \<Rightarrow> Inr fallback
      | Some value \<Rightarrow>
          attempt (host_items L name (SplitByte (CHR '','') value)) (\<lambda>items.
            if items = [] then Inl (Message (name @ '' cannot be empty'')) else Inr items))"

definition canonicalOrigin :: "golib \<Rightarrow> string \<Rightarrow> (config_error, string) result" where
  "canonicalOrigin L value =
     (case parseRequestURI L value of
        None \<Rightarrow> Inl (Quoted ''origin '' value '' must be an absolute HTTP(S) origin'')
      | Some parsed \<Rightarrow>
          (let scheme = lower L (Scheme parsed)
           in if Hostname parsed = [] \<or> (scheme \<noteq> ''http'' \<and> scheme \<noteq> ''https'')
              then Inl (Quoted ''origin '' value '' must be an absolute HTTP(S) origin'')
              else if User parsed \<noteq> None \<or> (Path parsed \<noteq> [] \<and> Path parsed \<noteq> ''/'') \<or>
                RawQuery parsed \<noteq> [] \<or> Fragment parsed \<noteq> []
              then Inl (Quoted ''origin '' value '' must not contain credentials, a path, query, or fragment'')
              else Inr (origin_string scheme (lower L (HostPort parsed)))))"

fun origin_items :: "golib \<Rightarrow> string \<Rightarrow> string list \<Rightarrow> (config_error, string list) result" where
  "origin_items L name [] = Inr []"
| "origin_items L name (item # items) =
     (case canonicalOrigin L (TrimSpace item) of
        Inl e \<Rightarrow> Inl (Wrapped name e)
      | Inr origin \<Rightarrow> attempt (origin_items L name items) (\<lambda>rest. Inr (origin # rest)))"

definition origins :: "golib \<Rightarrow> environment \<Rightarrow> string \<Rightarrow> (config_error, string list) result" where
  "origins L lookup name =
     (case lookup name of
        None \<Rightarrow> Inr []
      | Some value \<Rightarrow>
          if TrimSpace value = [] then Inr []
          else origin_items L name (SplitByte (CHR '','') value))"

fun prefix_items :: "string \<Rightarrow> string list \<Rightarrow> (config_error, Prefix list) result" where
  "prefix_items name [] = Inr []"
| "prefix_items name (item # items) =
     (case ParsePrefix (TrimSpace item) of
        None \<Rightarrow> Inl (Quoted (name @ '' contains invalid CIDR '') (TrimSpace item) [])
      | Some p \<Rightarrow> attempt (prefix_items name items) (\<lambda>rest. Inr (Masked p # rest)))"

definition prefixes :: "environment \<Rightarrow> string \<Rightarrow> (config_error, Prefix list) result" where
  "prefixes lookup name =
     (case lookup name of
        None \<Rightarrow> Inr []
      | Some value \<Rightarrow>
          if TrimSpace value = [] then Inr []
          else prefix_items name (SplitByte (CHR '','') value))"

section \<open>URLs, endpoints, scopes, log levels\<close>

definition isLoopbackHost :: "string \<Rightarrow> bool" where
  "isLoopbackHost host =
     (if EqualFold host ''localhost'' then True
      else (case ParseIP host of None \<Rightarrow> False | Some ip \<Rightarrow> IsLoopback ip))"

definition validateSecureURL :: "golib \<Rightarrow> string \<Rightarrow> string \<Rightarrow> (config_error, unit) result" where
  "validateSecureURL L name value =
     (case parseRequestURI L value of
        None \<Rightarrow> Inl (Message (name @ '' must be an absolute HTTPS URL''))
      | Some parsed \<Rightarrow>
          if \<not> IsAbs parsed \<or> Hostname parsed = []
          then Inl (Message (name @ '' must be an absolute HTTPS URL''))
          else if Scheme parsed \<noteq> ''https'' \<and>
            \<not> (Scheme parsed = ''http'' \<and> isLoopbackHost (Hostname parsed))
          then Inl (Message (name @ '' must use HTTPS unless it targets localhost''))
          else if User parsed \<noteq> None \<or> RawQuery parsed \<noteq> [] \<or> Fragment parsed \<noteq> [] \<or> Opaque parsed \<noteq> []
          then Inl (Message (name @ '' must not contain credentials, a query, fragment, or opaque data''))
          else Inr ())"

definition validateBaseURL :: "URL \<Rightarrow> (config_error, unit) result" where
  "validateBaseURL baseURL =
     (if \<not> IsAbs baseURL \<or> Hostname baseURL = []
      then Inl (Message ''SYNTHIENT_API_BASE_URL must be an absolute URL with a host'')
      else if Scheme baseURL \<noteq> ''https'' \<and> Scheme baseURL \<noteq> ''http''
      then Inl (Message ''SYNTHIENT_API_BASE_URL must use HTTP or HTTPS'')
      else if Scheme baseURL = ''http'' \<and> \<not> isLoopbackHost (Hostname baseURL)
      then Inl (Message ''SYNTHIENT_API_BASE_URL must use HTTPS unless it targets localhost'')
      else if User baseURL \<noteq> None \<or> RawQuery baseURL \<noteq> [] \<or> Fragment baseURL \<noteq> [] \<or>
        Opaque baseURL \<noteq> [] \<or> RawPath baseURL \<noteq> []
      then Inl (Message ''SYNTHIENT_API_BASE_URL must not contain credentials, a query, fragment, opaque data, or an encoded path'')
      else Inr ())"

definition validateGRPCEndpoint :: "string \<Rightarrow> (config_error, unit) result" where
  "validateGRPCEndpoint value =
     (let bad = Message ''SYNTHIENT_GRPC_ENDPOINT must be a host:port without a URL scheme or path''
      in case SplitHostPort value of
           None \<Rightarrow> Inl bad
         | Some (host, port) \<Rightarrow>
             if host = [] \<or> port = [] \<or> ContainsAny value (''/'' @ [CHR 0x5C, CHR 0x09, CHR 0x0D, CHR 0x0A])
             then Inl bad
             else (let badport = Message ''SYNTHIENT_GRPC_ENDPOINT must contain a port between 1 and 65535''
                   in case Atoi port of
                        None \<Rightarrow> Inl badport
                      | Some parsedPort \<Rightarrow>
                          if parsedPort < 1 \<or> 65535 < parsedPort then Inl badport else Inr ()))"

fun scope_items :: "string list \<Rightarrow> (config_error, string list) result" where
  "scope_items [] = Inr []"
| "scope_items (raw # items) =
     (let scope = TrimSpace raw
      in if scope = [] \<or> 128 < length scope \<or>
           ContainsAny scope ('' '' @ [CHR 0x09, CHR 0x0D, CHR 0x0A, CHR 0x22])
         then Inl (Message ''OAUTH_REQUIRED_SCOPES must contain comma-separated scope tokens'')
         else attempt (scope_items items) (\<lambda>rest. Inr (scope # rest)))"

definition scopeList :: "string \<Rightarrow> (config_error, string list) result" where
  "scopeList value =
     attempt (scope_items (SplitByte (CHR '','') value)) (\<lambda>scopes.
       if length scopes = 0 \<or> 20 < length scopes
       then Inl (Message ''OAUTH_REQUIRED_SCOPES must contain between 1 and 20 scopes'')
       else Inr scopes)"

definition parseLogLevel :: "golib \<Rightarrow> string \<Rightarrow> (config_error, LogLevel) result" where
  "parseLogLevel L value =
     (let v = lower L (TrimSpace value)
      in if v = ''debug'' then Inr LevelDebug
         else if v = ''info'' then Inr LevelInfo
         else if v = ''warn'' \<or> v = ''warning'' then Inr LevelWarn
         else if v = ''error'' then Inr LevelError
         else Inl (Message ''LOG_LEVEL must be debug, info, warn, or error''))"

definition Address :: "Config \<Rightarrow> string" where
  "Address c = JoinHostPort (Host c) (Itoa (Port c))"

section \<open>The OAuth settings\<close>

record OAuthSettings =
  oauthKey :: string
  oauthIssuer :: string
  oauthJWKS :: string
  oauthAud :: string
  oauthResource :: string
  oauthScopes :: "string list"

definition no_oauth :: OAuthSettings where
  "no_oauth = \<lparr>oauthKey = [], oauthIssuer = [], oauthJWKS = [], oauthAud = [], oauthResource = [],
     oauthScopes = []\<rparr>"

text \<open>
  The three URLs are checked in a loop over a map literal, in whatever order the runtime iterates
  it: \<open>order\<close> permutes the list of its entries.
\<close>

type_synonym map_order = "(string \<times> string) list \<Rightarrow> (string \<times> string) list"

fun secure_urls :: "golib \<Rightarrow> (string \<times> string) list \<Rightarrow> (config_error, unit) result" where
  "secure_urls L [] = Inr ()"
| "secure_urls L ((name, value) # entries) =
     attempt (validateSecureURL L name value) (\<lambda>_. secure_urls L entries)"

definition oauth_urls :: "string \<Rightarrow> string \<Rightarrow> string \<Rightarrow> (string \<times> string) list" where
  "oauth_urls issuer jwks resource =
     [(''OAUTH_ISSUER_URL'', issuer), (''OAUTH_JWKS_URL'', jwks), (''MCP_RESOURCE_URL'', resource)]"

definition oauth_settings ::
  "golib \<Rightarrow> map_order \<Rightarrow> environment \<Rightarrow> (config_error, OAuthSettings) result" where
  "oauth_settings L order lookup =
     (let key = TrimSpace (get lookup ''SYNTHIENT_API_KEY'' []);
          issuer = TrimSpace (get lookup ''OAUTH_ISSUER_URL'' []);
          jwks = TrimSpace (get lookup ''OAUTH_JWKS_URL'' []);
          aud = TrimSpace (get lookup ''OAUTH_AUDIENCE'' []);
          resource = TrimSpace (get lookup ''MCP_RESOURCE_URL'' [])
      in attempt (refuse (key = [] \<or> 1024 < length key)
           (Message ''SYNTHIENT_API_KEY must contain a bounded server credential in oauth mode'')) (\<lambda>_.
         attempt (secure_urls L (order (oauth_urls issuer jwks resource))) (\<lambda>_.
         attempt (refuse (aud = [] \<or> 2048 < length aud)
           (Message ''OAUTH_AUDIENCE is required in oauth mode and must not exceed 2048 characters'')) (\<lambda>_.
         attempt (scopeList (get lookup ''OAUTH_REQUIRED_SCOPES'' ''mcp:tools'')) (\<lambda>scopes.
         Inr \<lparr>oauthKey = key, oauthIssuer = issuer, oauthJWKS = jwks, oauthAud = aud,
           oauthResource = resource, oauthScopes = scopes\<rparr>)))))"

section \<open>Loading\<close>

definition LoadFrom :: "golib \<Rightarrow> map_order \<Rightarrow> environment \<Rightarrow> (config_error, Config) result" where
  "LoadFrom L order lookup =
     (let host = normalizeHostname L (get lookup ''HOST'' ''127.0.0.1'')
      in attempt (validateListenHost host) (\<lambda>_.
    attempt (integer lookup ''PORT'' 3000 1 65535) (\<lambda>port.
    attempt (host_list L lookup ''ALLOWED_HOSTS'' defaultAllowedHosts) (\<lambda>allowedHosts.
    attempt (origins L lookup ''ALLOWED_ORIGINS'') (\<lambda>allowedOrigins.
    attempt (integer lookup ''TRUST_PROXY_HOPS'' 0 0 10) (\<lambda>trustProxyHops.
    attempt (prefixes lookup ''TRUSTED_PROXY_CIDRS'') (\<lambda>trustedProxyCIDRs.
    attempt (refuse (0 < trustProxyHops \<and> trustedProxyCIDRs = [])
      (Message ''TRUSTED_PROXY_CIDRS is required when TRUST_PROXY_HOPS is greater than zero'')) (\<lambda>_.
    attempt (integer lookup ''REQUEST_TIMEOUT_MS'' 15000 100 120000) (\<lambda>timeoutMS.
    attempt (integer lookup ''STREAM_TIMEOUT_MS'' 15000 1000 30000) (\<lambda>streamTimeoutMS.
    let operationTimeoutMS = max timeoutMS streamTimeoutMS in
    attempt (integer lookup ''READ_TIMEOUT_MS'' (operationTimeoutMS + 5000) 1000 180000) (\<lambda>readTimeoutMS.
    attempt (integer lookup ''WRITE_TIMEOUT_MS'' (operationTimeoutMS + 5000) 1000 180000) (\<lambda>writeTimeoutMS.
    attempt (refuse (writeTimeoutMS \<le> streamTimeoutMS)
      (Message ''WRITE_TIMEOUT_MS must exceed STREAM_TIMEOUT_MS'')) (\<lambda>_.
    attempt (integer lookup ''IDLE_TIMEOUT_MS'' 60000 1000 300000) (\<lambda>idleTimeoutMS.
    attempt (integer lookup ''SHUTDOWN_TIMEOUT_MS'' 10000 1000 120000) (\<lambda>shutdownTimeoutMS.
    attempt (integer lookup ''MAX_HEADER_BYTES'' 32768 8192 1048576) (\<lambda>maxHeaderBytes.
    attempt (integer lookup ''MAX_CONCURRENT_REQUESTS'' 8 1 1024) (\<lambda>maxConcurrentRequests.
    attempt (boolean lookup ''METRICS_ENABLED'' False) (\<lambda>metricsEnabled.
    attempt (integer lookup ''MAX_CONCURRENT_PER_PRINCIPAL'' 2 1 1024) (\<lambda>maxConcurrentPerUser.
    attempt (refuse (maxConcurrentRequests < maxConcurrentPerUser)
      (Message ''MAX_CONCURRENT_PER_PRINCIPAL must not exceed MAX_CONCURRENT_REQUESTS'')) (\<lambda>_.
    attempt (integer lookup ''MAX_REQUESTS_PER_MINUTE'' 120 0 100000) (\<lambda>maxRequestsPerMinute.
    attempt (boolean lookup ''FORWARD_CLIENT_IP'' False) (\<lambda>forwardClientIP.
    attempt (boolean lookup ''CORS_ENABLED'' False) (\<lambda>corsEnabled.
    attempt (boolean lookup ''LEGACY_TOOL_NAMES'' False) (\<lambda>legacyToolNames.
    attempt (refuse (corsEnabled \<and> allowedOrigins = [])
      (Message ''ALLOWED_ORIGINS is required when CORS_ENABLED is true'')) (\<lambda>_.
    attempt (case urlParse L (get lookup ''SYNTHIENT_API_BASE_URL'' ''https://api.synthient.com/api/v4/'') of
               None \<Rightarrow> Inl (ParseFailed ''SYNTHIENT_API_BASE_URL'') | Some u \<Rightarrow> Inr u) (\<lambda>parsedURL.
    attempt (validateBaseURL parsedURL) (\<lambda>_.
    let baseURL = (if HasSuffix (Path parsedURL) ''/'' then parsedURL
                   else parsedURL\<lparr>Path := Path parsedURL @ ''/''\<rparr>);
        grpcEndpoint = TrimSpace (get lookup ''SYNTHIENT_GRPC_ENDPOINT'' ''grpc.synthient.com:443'') in
    attempt (validateGRPCEndpoint grpcEndpoint) (\<lambda>_.
    let authMode = lower L (TrimSpace (get lookup ''AUTH_MODE'' ''api_key'')) in
    attempt (refuse (authMode \<noteq> ''api_key'' \<and> authMode \<noteq> ''oauth'')
      (Message ''AUTH_MODE must be api_key or oauth'')) (\<lambda>_.
    attempt (if authMode = ''oauth'' then oauth_settings L order lookup else Inr no_oauth) (\<lambda>oauth.
    attempt (parseLogLevel L (get lookup ''LOG_LEVEL'' ''info'')) (\<lambda>logLevel.
    let logFormat = lower L (TrimSpace (get lookup ''LOG_FORMAT'' ''text'')) in
    attempt (refuse (logFormat \<noteq> ''text'' \<and> logFormat \<noteq> ''json'')
      (Message ''LOG_FORMAT must be text or json'')) (\<lambda>_.
    Inr \<lparr>Host = host, Port = port, AllowedHosts = allowedHosts, AllowedOrigins = allowedOrigins,
      TrustProxyHops = trustProxyHops, TrustedProxyCIDRs = trustedProxyCIDRs,
      SynthientBaseURL = Some baseURL, SynthientGRPCEndpoint = grpcEndpoint,
      SynthientAPIKey = oauthKey oauth, AuthMode = authMode, OAuthIssuerURL = oauthIssuer oauth,
      OAuthJWKSURL = oauthJWKS oauth, OAuthAudience = oauthAud oauth,
      MCPResourceURL = oauthResource oauth, OAuthRequiredScopes = oauthScopes oauth,
      ForwardClientIP = forwardClientIP, CORSEnabled = corsEnabled, LegacyToolNames = legacyToolNames,
      RequestTimeout = timeoutMS * Millisecond, StreamTimeout = streamTimeoutMS * Millisecond,
      ReadTimeout = readTimeoutMS * Millisecond, WriteTimeout = writeTimeoutMS * Millisecond,
      IdleTimeout = idleTimeoutMS * Millisecond, ShutdownTimeout = shutdownTimeoutMS * Millisecond,
      MaxRequestBody = push_bit 20 1, MaxHeaderBytes = maxHeaderBytes,
      MaxConcurrentRequests = maxConcurrentRequests, MaxConcurrentPerUser = maxConcurrentPerUser,
      MaxRequestsPerMinute = maxRequestsPerMinute, MaxAPIKeyLength = 1024,
      MetricsEnabled = metricsEnabled, LogLevel = logLevel, LogJSON = (logFormat = ''json'')\<rparr>))))))))))))))))))))))))))))))))"

section \<open>Each reader\<close>

lemma integer_Inr_iff:
  "integer lookup name fallback lo hi = Inr n \<longleftrightarrow>
     (lookup name \<in> {None, Some []} \<and> n = fallback) \<or>
     (\<exists>value. lookup name = Some value \<and> value \<noteq> [] \<and> Atoi value = Some n \<and> lo \<le> n \<and> n \<le> hi)"
  by (auto simp: integer_def Let_def split: option.splits)

lemma integer_range:
  assumes "integer lookup name fallback lo hi = Inr n" and "lo \<le> fallback" and "fallback \<le> hi"
  shows "lo \<le> n \<and> n \<le> hi"
  using assms by (auto simp: integer_Inr_iff)

lemma host_items_Inr:
  "host_items L name raws = Inr items \<Longrightarrow>
     items = filter (\<lambda>item. item \<noteq> []) (map (normalizeHostname L) raws) \<and>
     (\<forall>item\<in>set items. succeeds (validateListenHost item))"
  by (induction L name raws arbitrary: items rule: host_items.induct)
     (auto simp: Let_def attempt_Inr_iff split: if_splits)

lemma zero_groups: "foldl (\<lambda>a. (+) (a * B)) 0 (replicate n 0) = (0 :: nat)"
  by (induction n) simp_all

lemma ParseIP_loopback6 [go_eval]: "ParseIP ''::1'' = Some 1"
  by (simp add: ipv6_groups.simps parseIPv6_def expand_ellipsis_def addr6_of_def zero_groups go_eval)

lemma validateListenHost_defaults [simp]: "host \<in> set defaultAllowedHosts \<Longrightarrow> succeeds (validateListenHost host)"
  by (auto simp: defaultAllowedHosts_def validateListenHost_def ContainsAny_def ParseIP_loopback6)

lemma host_list_Inr:
  "host_list L lookup name defaultAllowedHosts = Inr items \<Longrightarrow>
     items \<noteq> [] \<and> (\<forall>item\<in>set items. succeeds (validateListenHost item))"
  by (auto simp: host_list_def attempt_Inr_iff defaultAllowedHosts_def dest: host_items_Inr
      split: option.splits if_splits)

lemma prefix_items_Inr:
  "prefix_items name raws = Inr ps \<Longrightarrow>
     list_all2 (\<lambda>raw p. \<exists>q. ParsePrefix (TrimSpace raw) = Some q \<and> p = Masked q) raws ps"
  by (induction name raws arbitrary: ps rule: prefix_items.induct)
     (auto simp: attempt_Inr_iff split: option.splits)

lemma validateSecureURL_Inr:
  "validateSecureURL L name value = Inr u \<Longrightarrow>
     \<exists>p. parseRequestURI L value = Some p \<and> Hostname p \<noteq> [] \<and> User p = None \<and> RawQuery p = [] \<and>
       Fragment p = [] \<and> (Scheme p = ''https'' \<or> Scheme p = ''http'' \<and> isLoopbackHost (Hostname p))"
  by (auto simp: validateSecureURL_def split: option.splits if_splits)

lemma validateBaseURL_Inr:
  "validateBaseURL p = Inr u \<Longrightarrow>
     Hostname p \<noteq> [] \<and> User p = None \<and> RawQuery p = [] \<and> Fragment p = [] \<and>
       (Scheme p = ''https'' \<or> Scheme p = ''http'' \<and> isLoopbackHost (Hostname p))"
  by (auto simp: validateBaseURL_def split: if_splits)

lemma secure_urls_Inr_iff:
  "secure_urls L entries = Inr u \<longleftrightarrow> (\<forall>(name, value)\<in>set entries. succeeds (validateSecureURL L name value))"
  by (induction L entries rule: secure_urls.induct) (auto simp: attempt_Inr_iff succeeds_iff)

lemma scope_items_Inr:
  "scope_items raws = Inr scopes \<Longrightarrow> scopes = map TrimSpace raws \<and>
     (\<forall>scope\<in>set scopes. scope \<noteq> [] \<and> length scope \<le> 128)"
  by (induction raws arbitrary: scopes) (fastforce simp: Let_def attempt_Inr_iff split: if_splits)+

lemma mask_idem:
  fixes w :: "'a::len word"
  shows "push_bit n (drop_bit n (push_bit n (drop_bit n w))) = push_bit n (drop_bit n w)"
  by (rule bit_word_eqI) (auto simp: bit_simps)

lemma Masked_idem [simp]: "Masked (Masked p) = Masked p"
  by (cases p rule: Masked.cases) (simp_all add: mask_idem)

lemma prefix_items_masked: "prefix_items name raws = Inr ps \<Longrightarrow> p \<in> set ps \<Longrightarrow> Masked p = p"
  using prefix_items_Inr list_all2_right_ex by fastforce

lemma prefixes_masked: "prefixes lookup name = Inr ps \<Longrightarrow> p \<in> set ps \<Longrightarrow> Masked p = p"
  by (auto simp: prefixes_def dest: prefix_items_masked split: option.splits if_splits)

lemma oauth_settings_Inr:
  assumes "oauth_settings L order lookup = Inr s"
    and perm: "\<And>xs. mset (order xs) = mset xs"
  shows "oauthKey s \<noteq> [] \<and> length (oauthKey s) \<le> 1024 \<and> oauthAud s \<noteq> [] \<and> length (oauthAud s) \<le> 2048 \<and>
    1 \<le> length (oauthScopes s) \<and> length (oauthScopes s) \<le> 20 \<and>
    (\<forall>(name, value) \<in> set (oauth_urls (oauthIssuer s) (oauthJWKS s) (oauthResource s)).
       succeeds (validateSecureURL L name value))"
proof -
  have "set (order xs) = set xs" for xs
    using perm [of xs] by (metis set_mset_mset)
  with assms show ?thesis
    by (auto simp: oauth_settings_def Let_def attempt_Inr_iff secure_urls_Inr_iff scopeList_def
        Suc_le_eq split: if_splits)
qed

section \<open>What a loaded configuration guarantees\<close>

lemma oauth_settings_order:
  assumes "\<And>xs. mset (order xs) = mset xs" and "\<And>xs. mset (order' xs) = mset xs"
  shows "oauth_settings L order lookup = Inr s \<longleftrightarrow> oauth_settings L order' lookup = Inr s"
proof -
  have "set (order xs) = set (order' xs)" for xs
    using assms [of xs] by (metis set_mset_mset)
  then show ?thesis
    by (auto simp: oauth_settings_def Let_def attempt_Inr_iff secure_urls_Inr_iff)
qed

lemma attemptE:
  assumes "attempt r k = Inr y" obtains x where "r = Inr x" "k x = Inr y"
  using assms by (auto simp: attempt_Inr_iff)

lemma refuseE:
  assumes "refuse bad e = Inr u" obtains "\<not> bad"
  using assms by simp

lemma Inr_subst: "Inr x = Inr y \<Longrightarrow> P x \<Longrightarrow> P y"
  by simp

lemma succeedsI: "r = Inr x \<Longrightarrow> succeeds r"
  by simp

lemma LoadFrom_fields:
  assumes "LoadFrom L order lookup = Inr c"
  shows "\<exists>timeoutMS streamTimeoutMS readTimeoutMS writeTimeoutMS idleTimeoutMS shutdownTimeoutMS parsed oauth.
    Host c = normalizeHostname L (get lookup ''HOST'' ''127.0.0.1'') \<and>
    succeeds (validateListenHost (Host c)) \<and>
    integer lookup ''PORT'' 3000 1 65535 = Inr (Port c) \<and>
    host_list L lookup ''ALLOWED_HOSTS'' defaultAllowedHosts = Inr (AllowedHosts c) \<and>
    origins L lookup ''ALLOWED_ORIGINS'' = Inr (AllowedOrigins c) \<and>
    integer lookup ''TRUST_PROXY_HOPS'' 0 0 10 = Inr (TrustProxyHops c) \<and>
    prefixes lookup ''TRUSTED_PROXY_CIDRS'' = Inr (TrustedProxyCIDRs c) \<and>
    \<not> (0 < TrustProxyHops c \<and> TrustedProxyCIDRs c = []) \<and>
    integer lookup ''REQUEST_TIMEOUT_MS'' 15000 100 120000 = Inr timeoutMS \<and>
    RequestTimeout c = timeoutMS * Millisecond \<and>
    integer lookup ''STREAM_TIMEOUT_MS'' 15000 1000 30000 = Inr streamTimeoutMS \<and>
    StreamTimeout c = streamTimeoutMS * Millisecond \<and>
    integer lookup ''READ_TIMEOUT_MS'' (max timeoutMS streamTimeoutMS + 5000) 1000 180000 = Inr readTimeoutMS \<and>
    ReadTimeout c = readTimeoutMS * Millisecond \<and>
    integer lookup ''WRITE_TIMEOUT_MS'' (max timeoutMS streamTimeoutMS + 5000) 1000 180000 = Inr writeTimeoutMS \<and>
    WriteTimeout c = writeTimeoutMS * Millisecond \<and>
    \<not> (writeTimeoutMS \<le> streamTimeoutMS) \<and>
    integer lookup ''IDLE_TIMEOUT_MS'' 60000 1000 300000 = Inr idleTimeoutMS \<and>
    IdleTimeout c = idleTimeoutMS * Millisecond \<and>
    integer lookup ''SHUTDOWN_TIMEOUT_MS'' 10000 1000 120000 = Inr shutdownTimeoutMS \<and>
    ShutdownTimeout c = shutdownTimeoutMS * Millisecond \<and>
    integer lookup ''MAX_HEADER_BYTES'' 32768 8192 1048576 = Inr (MaxHeaderBytes c) \<and>
    integer lookup ''MAX_CONCURRENT_REQUESTS'' 8 1 1024 = Inr (MaxConcurrentRequests c) \<and>
    boolean lookup ''METRICS_ENABLED'' False = Inr (MetricsEnabled c) \<and>
    integer lookup ''MAX_CONCURRENT_PER_PRINCIPAL'' 2 1 1024 = Inr (MaxConcurrentPerUser c) \<and>
    \<not> (MaxConcurrentRequests c < MaxConcurrentPerUser c) \<and>
    integer lookup ''MAX_REQUESTS_PER_MINUTE'' 120 0 100000 = Inr (MaxRequestsPerMinute c) \<and>
    boolean lookup ''FORWARD_CLIENT_IP'' False = Inr (ForwardClientIP c) \<and>
    boolean lookup ''CORS_ENABLED'' False = Inr (CORSEnabled c) \<and>
    boolean lookup ''LEGACY_TOOL_NAMES'' False = Inr (LegacyToolNames c) \<and>
    \<not> (CORSEnabled c \<and> AllowedOrigins c = []) \<and>
    succeeds (validateBaseURL parsed) \<and>
    SynthientBaseURL c = Some (if HasSuffix (Path parsed) ''/'' then parsed
                               else parsed\<lparr>Path := Path parsed @ ''/''\<rparr>) \<and>
    succeeds (validateGRPCEndpoint (SynthientGRPCEndpoint c)) \<and>
    \<not> (AuthMode c \<noteq> ''api_key'' \<and> AuthMode c \<noteq> ''oauth'') \<and>
    (if AuthMode c = ''oauth'' then oauth_settings L order lookup else Inr no_oauth) = Inr oauth \<and>
    SynthientAPIKey c = oauthKey oauth \<and> OAuthIssuerURL c = oauthIssuer oauth \<and>
    OAuthJWKSURL c = oauthJWKS oauth \<and> OAuthAudience c = oauthAud oauth \<and>
    MCPResourceURL c = oauthResource oauth \<and> OAuthRequiredScopes c = oauthScopes oauth \<and>
    MaxRequestBody c = push_bit 20 1 \<and> MaxAPIKeyLength c = 1024 \<and>
    parseLogLevel L (get lookup ''LOG_LEVEL'' ''info'') = Inr (LogLevel c)"
  using assms unfolding LoadFrom_def Let_def
  apply (elim attemptE refuseE)
  apply (erule_tac y = c in Inr_subst)
  apply (simp (no_asm) only: Config.Config.select_convs)
  apply (intro exI conjI)
  apply (assumption | rule refl | erule succeedsI)+
  done

section \<open>Loading concrete environments\<close>

lemma attempt_first_cong: "r = r' \<Longrightarrow> attempt r k = attempt r' k"
  by simp

lemma lower_eval [go_eval]:
  "lower L s = (if is_ascii s then map ascii_lower s else lowerUnicode L s)"
  by (simp add: lower_def ToLower_def)

lemma char_of_lower [go_eval]:
  "char_of (97 :: nat) = CHR ''a''"
  "char_of (98 :: nat) = CHR ''b''"
  "char_of (99 :: nat) = CHR ''c''"
  "char_of (100 :: nat) = CHR ''d''"
  "char_of (101 :: nat) = CHR ''e''"
  "char_of (102 :: nat) = CHR ''f''"
  "char_of (103 :: nat) = CHR ''g''"
  "char_of (104 :: nat) = CHR ''h''"
  "char_of (105 :: nat) = CHR ''i''"
  "char_of (106 :: nat) = CHR ''j''"
  "char_of (107 :: nat) = CHR ''k''"
  "char_of (108 :: nat) = CHR ''l''"
  "char_of (109 :: nat) = CHR ''m''"
  "char_of (110 :: nat) = CHR ''n''"
  "char_of (111 :: nat) = CHR ''o''"
  "char_of (112 :: nat) = CHR ''p''"
  "char_of (113 :: nat) = CHR ''q''"
  "char_of (114 :: nat) = CHR ''r''"
  "char_of (115 :: nat) = CHR ''s''"
  "char_of (116 :: nat) = CHR ''t''"
  "char_of (117 :: nat) = CHR ''u''"
  "char_of (118 :: nat) = CHR ''v''"
  "char_of (119 :: nat) = CHR ''w''"
  "char_of (120 :: nat) = CHR ''x''"
  "char_of (121 :: nat) = CHR ''y''"
  "char_of (122 :: nat) = CHR ''z''"
  by code_simp+

lemmas [go_eval] = is_ascii_def ascii_lower_def is_upper_def

definition stream_env :: "int \<Rightarrow> environment" where
  "stream_env n = [''STREAM_TIMEOUT_MS'' \<mapsto> Itoa n]"

lemma get_unset [simp]: "lookup name = None \<Longrightarrow> get lookup name fallback = fallback"
  by (simp add: get_def)
lemma integer_unset [simp]: "lookup name = None \<Longrightarrow> integer lookup name fallback lo hi = Inr fallback"
  by (simp add: integer_def)
lemma boolean_unset [simp]: "lookup name = None \<Longrightarrow> boolean lookup name fallback = Inr fallback"
  by (simp add: boolean_def)
lemma lists_unset [simp]: "lookup name = None \<Longrightarrow> host_list L lookup name fallback = Inr fallback"
  "lookup name = None \<Longrightarrow> origins L lookup name = Inr []"
  "lookup name = None \<Longrightarrow> prefixes lookup name = Inr []"
  by (simp_all add: host_list_def origins_def prefixes_def)

lemma stream_env_other: "name \<noteq> ''STREAM_TIMEOUT_MS'' \<Longrightarrow> stream_env n name = None"
  by (simp add: stream_env_def)

lemma default_texts:
  "normalizeHostname L ''127.0.0.1'' = ''127.0.0.1''"
  "succeeds (validateListenHost ''127.0.0.1'')"
  "validateGRPCEndpoint ''grpc.synthient.com:443'' = Inr ()"
  "TrimSpace ''grpc.synthient.com:443'' = ''grpc.synthient.com:443''"
  "lower L (TrimSpace ''api_key'') = ''api_key''"
  "lower L (TrimSpace ''text'') = ''text''"
  "parseLogLevel L ''info'' = Inr LevelInfo"
  by (simp_all add: normalizeHostname_def validateListenHost_def validateGRPCEndpoint_def ContainsAny_def Atoi_def parse_digits_def nat_value_def min_int_def max_int_def go_eval parseLogLevel_def)

definition stream_config :: "URL \<Rightarrow> int \<Rightarrow> Config" where
  "stream_config url streamTimeoutMS =
     \<lparr>Host = ''127.0.0.1'', Port = 3000, AllowedHosts = [''localhost'', ''127.0.0.1'', ''::1''],
      AllowedOrigins = [], TrustProxyHops = 0, TrustedProxyCIDRs = [], SynthientBaseURL = Some url,
      SynthientGRPCEndpoint = ''grpc.synthient.com:443'', SynthientAPIKey = [], AuthMode = ''api_key'',
      OAuthIssuerURL = [], OAuthJWKSURL = [], OAuthAudience = [], MCPResourceURL = [],
      OAuthRequiredScopes = [], ForwardClientIP = False, CORSEnabled = False, LegacyToolNames = False,
      RequestTimeout = 15000000000, StreamTimeout = streamTimeoutMS * 1000000,
      ReadTimeout = (max 15000 streamTimeoutMS + 5000) * 1000000,
      WriteTimeout = (max 15000 streamTimeoutMS + 5000) * 1000000, IdleTimeout = 60000000000,
      ShutdownTimeout = 10000000000, MaxRequestBody = 1048576, MaxHeaderBytes = 32768,
      MaxConcurrentRequests = 8, MaxConcurrentPerUser = 2, MaxRequestsPerMinute = 120,
      MaxAPIKeyLength = 1024, MetricsEnabled = False, LogLevel = LevelInfo, LogJSON = False\<rparr>"

lemma Itoa_ne [simp]: "Itoa n \<noteq> []"
  by (simp add: Itoa_def)

lemma stream_env_integer:
  assumes "1000 \<le> n" "n \<le> 30000"
  shows "integer (stream_env n) ''STREAM_TIMEOUT_MS'' 15000 1000 30000 = Inr n"
  using assms by (auto simp: integer_Inr_iff stream_env_def Atoi_Itoa min_int_def max_int_def)

lemma succeeds_attempt: "succeeds r \<Longrightarrow> attempt r (\<lambda>_. k) = k"
  by (cases r) auto

lemma LoadFrom_stream_env:
  assumes "urlParse L ''https://api.synthient.com/api/v4/'' = Some url"
    and "succeeds (validateBaseURL url)" and "HasSuffix (Path url) ''/''"
    and "1000 \<le> n" "n \<le> 30000"
  shows "LoadFrom L order (stream_env n) = Inr (stream_config url n)"
proof -
  have "\<not> max 15000 n + 5000 \<le> n" by simp
  then show ?thesis
    unfolding LoadFrom_def Let_def
    by (simp add: stream_env_other stream_env_integer default_texts assms succeeds_attempt attempt_refuse
      defaultAllowedHosts_def no_oauth_def stream_config_def Millisecond_def cong: attempt_first_cong)
qed

text \<open>A parser of the URLs of the examples, and a permutation of the map's entries.\<close>

definition plain_url :: "string \<Rightarrow> string \<Rightarrow> string \<Rightarrow> URL" where
  "plain_url scheme host path =
     \<lparr>Scheme = scheme, Opaque = [], User = None, HostPort = host, Path = path, RawPath = [],
      RawQuery = [], Fragment = []\<rparr>"

fun example_parse :: "string \<Rightarrow> URL option" where
  "example_parse s =
     (if HasPrefix s ''https://''
      then (case CutByte (CHR ''/'') (drop 8 s) of (host, path, found) \<Rightarrow>
              Some (plain_url ''https'' host (if found then CHR ''/'' # path else [])))
      else None)"

definition example_lib :: golib where
  "example_lib = \<lparr>lowerUnicode = id, urlParse = example_parse, parseRequestURI = example_parse\<rparr>"

definition api_url :: URL where
  "api_url = plain_url ''https'' ''api.synthient.com'' ''/api/v4/''"

lemma example_api_url:
  "urlParse example_lib ''https://api.synthient.com/api/v4/'' = Some api_url"
  "succeeds (validateBaseURL api_url)" "HasSuffix (Path api_url) ''/''"
  by (simp_all add: example_lib_def api_url_def plain_url_def validateBaseURL_def Hostname_def
      IsAbs_def HasSuffix_def go_eval)

lemmas LoadFrom_example = LoadFrom_stream_env [OF example_api_url, of 30000, simplified]

text \<open>The environment of the OAuth example of the README.\<close>

definition oauth_env :: environment where
  "oauth_env =
     [''AUTH_MODE'' \<mapsto> ''oauth'', ''SYNTHIENT_API_KEY'' \<mapsto> ''server-key'',
      ''OAUTH_ISSUER_URL'' \<mapsto> ''https://id.example.com/'',
      ''OAUTH_JWKS_URL'' \<mapsto> ''https://id.example.com/jwks.json'',
      ''OAUTH_AUDIENCE'' \<mapsto> ''https://mcp.example.com/mcp'',
      ''MCP_RESOURCE_URL'' \<mapsto> ''https://mcp.example.com/mcp'']"

lemma example_secure:
  "validateSecureURL example_lib name ''https://id.example.com/'' = Inr ()"
  "validateSecureURL example_lib name ''https://id.example.com/jwks.json'' = Inr ()"
  "validateSecureURL example_lib name ''https://mcp.example.com/mcp'' = Inr ()"
  by (simp_all add: validateSecureURL_def example_lib_def plain_url_def Hostname_def IsAbs_def go_eval)

lemma oauth_settings_example:
  "oauth_settings example_lib rev oauth_env = Inr
     \<lparr>oauthKey = ''server-key'', oauthIssuer = ''https://id.example.com/'',
      oauthJWKS = ''https://id.example.com/jwks.json'', oauthAud = ''https://mcp.example.com/mcp'',
      oauthResource = ''https://mcp.example.com/mcp'', oauthScopes = [''mcp:tools'']\<rparr>"
  by (simp add: oauth_settings_def oauth_env_def get_def oauth_urls_def example_secure
      attempt_refuse scopeList_def ContainsAny_def Let_def go_eval)

lemma LoadFrom_oauth_example:
  "\<exists>c. LoadFrom example_lib rev oauth_env = Inr c \<and> AuthMode c = ''oauth''"
proof -
  have unset: "oauth_env name = None"
    if "name \<notin> {''AUTH_MODE'', ''SYNTHIENT_API_KEY'', ''OAUTH_ISSUER_URL'', ''OAUTH_JWKS_URL'',
      ''OAUTH_AUDIENCE'', ''MCP_RESOURCE_URL''}" for name
    using that by (simp add: oauth_env_def)
  have mode: "get oauth_env ''AUTH_MODE'' ''api_key'' = ''oauth''"
    "lower example_lib (TrimSpace ''oauth'') = ''oauth''"
    by (simp_all add: oauth_env_def get_def go_eval)
  show ?thesis
    unfolding LoadFrom_def Let_def
    by (simp add: unset mode default_texts example_api_url succeeds_attempt attempt_refuse
        defaultAllowedHosts_def oauth_settings_example cong: attempt_first_cong)
qed

section \<open>Properties\<close>

lemma integer_Millisecond:
  assumes "integer lookup name fallback lo hi = Inr n" "lo \<le> fallback" "fallback \<le> hi"
  shows "lo * Millisecond \<le> n * Millisecond \<and> n * Millisecond \<le> hi * Millisecond"
  using integer_range [OF assms] by (simp add: Millisecond_def)



text \<open>C39: every timeout of an accepted configuration is positive and at most 300 seconds, so the
  64-bit product of milliseconds and \<open>time.Millisecond\<close> never wraps; a response can always outlast
  a stream (\<open>StreamTimeout < WriteTimeout\<close>); and unless the operator overrides them, the server's
  read and write timeouts leave five seconds beyond the longest upstream operation.\<close>

theorem config_timeouts:
  assumes "LoadFrom L order lookup = Inr c"
  shows "100 * Millisecond \<le> RequestTimeout c \<and> RequestTimeout c \<le> 120000 * Millisecond \<and>
    1000 * Millisecond \<le> StreamTimeout c \<and> StreamTimeout c \<le> 30000 * Millisecond \<and>
    StreamTimeout c < WriteTimeout c \<and>
    (\<forall>d\<in>{ReadTimeout c, WriteTimeout c, IdleTimeout c, ShutdownTimeout c}.
       1000 * Millisecond \<le> d \<and> d \<le> 300000 * Millisecond \<and> d \<le> max_int) \<and>
    (lookup ''WRITE_TIMEOUT_MS'' = None \<longrightarrow>
       WriteTimeout c = max (RequestTimeout c) (StreamTimeout c) + 5000 * Millisecond) \<and>
    (lookup ''READ_TIMEOUT_MS'' = None \<longrightarrow>
       ReadTimeout c = max (RequestTimeout c) (StreamTimeout c) + 5000 * Millisecond)"
proof -
  from LoadFrom_fields [OF assms] obtain t s r w i d
    where t: "integer lookup ''REQUEST_TIMEOUT_MS'' 15000 100 120000 = Inr t"
      and s: "integer lookup ''STREAM_TIMEOUT_MS'' 15000 1000 30000 = Inr s"
      and r: "integer lookup ''READ_TIMEOUT_MS'' (max t s + 5000) 1000 180000 = Inr r"
      and w: "integer lookup ''WRITE_TIMEOUT_MS'' (max t s + 5000) 1000 180000 = Inr w"
      and i: "integer lookup ''IDLE_TIMEOUT_MS'' 60000 1000 300000 = Inr i"
      and d: "integer lookup ''SHUTDOWN_TIMEOUT_MS'' 10000 1000 120000 = Inr d"
      and c: "RequestTimeout c = t * Millisecond" "StreamTimeout c = s * Millisecond"
        "ReadTimeout c = r * Millisecond" "WriteTimeout c = w * Millisecond"
        "IdleTimeout c = i * Millisecond" "ShutdownTimeout c = d * Millisecond" "\<not> w \<le> s"
    by blast
  note tb = integer_range [OF t, simplified] and sb = integer_range [OF s, simplified]
  have rb: "1000 \<le> r \<and> r \<le> 180000" and wb: "1000 \<le> w \<and> w \<le> 180000"
    using integer_range [OF r] integer_range [OF w] tb sb by (simp_all add: max_def)
  note ib = integer_range [OF i, simplified] and db = integer_range [OF d, simplified]
  have "lookup ''WRITE_TIMEOUT_MS'' = None \<Longrightarrow> w = max t s + 5000"
    "lookup ''READ_TIMEOUT_MS'' = None \<Longrightarrow> r = max t s + 5000"
    using w r by auto
  with tb sb rb wb ib db c show ?thesis
    by (simp add: Millisecond_def max_int_def max_def)
qed

theorem config_timeouts_witness:
  "LoadFrom example_lib rev (stream_env 30000) = Inr (stream_config api_url 30000) \<and>
   StreamTimeout (stream_config api_url 30000) < WriteTimeout (stream_config api_url 30000) \<and>
   WriteTimeout (stream_config api_url 30000) =
     max (RequestTimeout (stream_config api_url 30000)) (StreamTimeout (stream_config api_url 30000)) +
     5000 * Millisecond"
  using config_timeouts [OF LoadFrom_example] LoadFrom_example stream_env_other [of "''WRITE_TIMEOUT_MS''"]
  by simp

text \<open>A URL a credential may be sent to.\<close>

definition secure_url :: "URL \<Rightarrow> bool" where
  "secure_url u \<longleftrightarrow>
     (Scheme u = ''https'' \<or> Scheme u = ''http'' \<and> isLoopbackHost (Hostname u)) \<and>
     Hostname u \<noteq> [] \<and> User u = None \<and> RawQuery u = [] \<and> Fragment u = []"

lemma secure_urlI:
  "succeeds (validateBaseURL u) \<Longrightarrow> secure_url u"
  "succeeds (validateSecureURL L name v) \<Longrightarrow> parseRequestURI L v = Some u \<Longrightarrow> secure_url u"
  using validateBaseURL_Inr [of u] validateSecureURL_Inr [of L name v]
  by (auto simp: secure_url_def succeeds_iff)

lemma secure_url_Path [simp]: "secure_url (u\<lparr>Path := p\<rparr>) = secure_url u"
  by (simp add: secure_url_def)

text \<open>C11: no accepted configuration sends a credential over plain HTTP to another machine. The API
  base URL, and in OAuth mode the issuer, the key set and the resource URL, each use HTTPS unless
  their host is a loopback one, and none carries credentials, a query or a fragment.\<close>

theorem config_secure_urls:
  assumes "LoadFrom L order lookup = Inr c" and perm: "\<And>xs. mset (order xs) = mset xs"
  shows "\<exists>api. SynthientBaseURL c = Some api \<and> HasSuffix (Path api) ''/'' \<and> secure_url api \<and>
      (AuthMode c = ''oauth'' \<longrightarrow>
        (\<forall>v\<in>{OAuthIssuerURL c, OAuthJWKSURL c, MCPResourceURL c}.
           \<exists>u. parseRequestURI L v = Some u \<and> secure_url u))"
proof -
  from LoadFrom_fields [OF assms(1)] obtain parsed oauth
    where base: "succeeds (validateBaseURL parsed)"
      and api: "SynthientBaseURL c = Some (if HasSuffix (Path parsed) ''/'' then parsed
                                           else parsed\<lparr>Path := Path parsed @ ''/''\<rparr>)"
      and oauth: "(if AuthMode c = ''oauth'' then oauth_settings L order lookup else Inr no_oauth) = Inr oauth"
        "OAuthIssuerURL c = oauthIssuer oauth" "OAuthJWKSURL c = oauthJWKS oauth"
        "MCPResourceURL c = oauthResource oauth"
    by blast
  have "\<exists>u. parseRequestURI L v = Some u \<and> secure_url u"
    if mode: "AuthMode c = ''oauth''" and v: "v \<in> {OAuthIssuerURL c, OAuthJWKSURL c, MCPResourceURL c}" for v
  proof -
    from oauth mode have "oauth_settings L order lookup = Inr oauth" by simp
    from oauth_settings_Inr [OF this perm] oauth v
    obtain name where ok: "succeeds (validateSecureURL L name v)" by (auto simp: oauth_urls_def)
    then obtain u where "parseRequestURI L v = Some u"
      using validateSecureURL_Inr by (fastforce simp: succeeds_iff)
    with secure_urlI(2) [OF ok] show ?thesis by blast
  qed
  moreover define api' where "api' = (if HasSuffix (Path parsed) ''/'' then parsed
                              else parsed\<lparr>Path := Path parsed @ ''/''\<rparr>)"
  have "HasSuffix (Path api') ''/'' \<and> secure_url api'"
    using secure_urlI(1) [OF base] by (auto simp: api'_def HasSuffix_iff)
  ultimately show ?thesis
    using api unfolding api'_def [symmetric] by blast
qed

theorem config_secure_urls_witness:
  "\<exists>c api. LoadFrom example_lib rev oauth_env = Inr c \<and> SynthientBaseURL c = Some api \<and>
     HasSuffix (Path api) ''/'' \<and> secure_url api"
proof -
  obtain c where c: "LoadFrom example_lib rev oauth_env = Inr c" using LoadFrom_oauth_example by blast
  from config_secure_urls [OF c] obtain api
    where "SynthientBaseURL c = Some api" "HasSuffix (Path api) ''/''" "secure_url api" by auto
  with c show ?thesis by blast
qed

text \<open>The two authentication modes. In OAuth mode the server holds a credential of at most 1024
  bytes, an audience and between 1 and 20 scopes; in API-key mode no server credential and no OAuth
  setting is ever loaded, whatever the environment holds. No other mode is accepted.\<close>

theorem config_auth_modes:
  assumes "LoadFrom L order lookup = Inr c" and perm: "\<And>xs. mset (order xs) = mset xs"
  shows "(AuthMode c = ''oauth'' \<and> SynthientAPIKey c \<noteq> [] \<and> length (SynthientAPIKey c) \<le> 1024 \<and>
      SynthientAPIKey c = TrimSpace (get lookup ''SYNTHIENT_API_KEY'' []) \<and>
      OAuthAudience c \<noteq> [] \<and> length (OAuthAudience c) \<le> 2048 \<and>
      length (OAuthRequiredScopes c) \<in> {1..20} \<and>
      (\<forall>scope\<in>set (OAuthRequiredScopes c). scope \<noteq> [] \<and> length scope \<le> 128)) \<or>
    (AuthMode c = ''api_key'' \<and> SynthientAPIKey c = [] \<and> OAuthIssuerURL c = [] \<and> OAuthJWKSURL c = [] \<and>
      OAuthAudience c = [] \<and> MCPResourceURL c = [] \<and> OAuthRequiredScopes c = [])"
proof -
  from LoadFrom_fields [OF assms(1)] obtain oauth
    where mode: "\<not> (AuthMode c \<noteq> ''api_key'' \<and> AuthMode c \<noteq> ''oauth'')"
      and oauth: "(if AuthMode c = ''oauth'' then oauth_settings L order lookup else Inr no_oauth) = Inr oauth"
      and c: "SynthientAPIKey c = oauthKey oauth" "OAuthIssuerURL c = oauthIssuer oauth"
        "OAuthJWKSURL c = oauthJWKS oauth" "OAuthAudience c = oauthAud oauth"
        "MCPResourceURL c = oauthResource oauth" "OAuthRequiredScopes c = oauthScopes oauth"
    by blast
  show ?thesis
  proof (cases "AuthMode c = ''oauth''")
    case True
    with oauth have s: "oauth_settings L order lookup = Inr oauth" by simp
    then have "oauthKey oauth = TrimSpace (get lookup ''SYNTHIENT_API_KEY'' [])"
      and "\<exists>raws. scope_items raws = Inr (oauthScopes oauth)"
      by (auto simp: oauth_settings_def Let_def attempt_Inr_iff scopeList_def split: if_splits)
    with oauth_settings_Inr [OF s perm] True c show ?thesis
      by (auto dest: scope_items_Inr)
  next
    case False
    with oauth c mode show ?thesis by (auto simp: no_oauth_def)
  qed
qed

theorem config_auth_modes_witness:
  "\<exists>c. LoadFrom example_lib rev oauth_env = Inr c \<and> AuthMode c = ''oauth'' \<and> SynthientAPIKey c \<noteq> [] \<and>
     1 \<le> length (OAuthRequiredScopes c)"
proof -
  obtain c where c: "LoadFrom example_lib rev oauth_env = Inr c" "AuthMode c = ''oauth''"
    using LoadFrom_oauth_example by blast
  with config_auth_modes [OF c(1)] show ?thesis by auto
qed

text \<open>C40: loading is deterministic although the OAuth URLs are checked in Go's unspecified map order:
  whatever permutation the runtime picks, the same environments are accepted with the same
  configuration. Only the message of a refusal may depend on it.\<close>

theorem config_order_irrelevant:
  assumes "\<And>xs. mset (order xs) = mset xs" and "\<And>xs. mset (order' xs) = mset xs"
  shows "LoadFrom L order lookup = Inr c \<longleftrightarrow> LoadFrom L order' lookup = Inr c"
proof -
  have "(if m then oauth_settings L order lookup else Inr no_oauth) = Inr s \<longleftrightarrow>
        (if m then oauth_settings L order' lookup else Inr no_oauth) = Inr s" for m s
    using oauth_settings_order [OF assms] by simp
  then show ?thesis
    unfolding LoadFrom_def Let_def by (simp only: attempt_Inr_iff)
qed

theorem config_order_irrelevant_witness:
  "\<forall>c. LoadFrom example_lib rev oauth_env = Inr c \<longleftrightarrow> LoadFrom example_lib id oauth_env = Inr c"
  by (intro allI config_order_irrelevant) simp_all

end
