(* ===== verification/Telemetry.thy ===== *)
theory Telemetry
  imports Prelude "HOL-Library.Word"
begin

text \<open>
  The counters of \<open>httpserver.telemetry\<close>. They are \<open>atomic.Int64\<close>, so each is a 64-bit word that
  wraps around on \<open>Add\<close>.
\<close>

record telemetry =
  httpRequests :: "64 word"
  httpInflight :: "64 word"
  httpRejected :: "64 word"
  httpPrincipalRejected :: "64 word"
  httpRateRejected :: "64 word"
  upstreamRequests :: "64 word"
  upstreamTransport :: "64 word"
  upstreamSuccess :: "64 word"
  upstreamClientErrors :: "64 word"
  upstreamServerErrors :: "64 word"
  upstreamDurationNanos :: "64 word"

definition telemetry_zero :: telemetry where
  "telemetry_zero =
     \<lparr>httpRequests = 0, httpInflight = 0, httpRejected = 0, httpPrincipalRejected = 0,
      httpRateRejected = 0, upstreamRequests = 0, upstreamTransport = 0, upstreamSuccess = 0,
      upstreamClientErrors = 0, upstreamServerErrors = 0, upstreamDurationNanos = 0\<rparr>"

text \<open>\<open>ObserveUpstream\<close>: one call to the upstream, with status 0 for a transport error.\<close>

definition ObserveUpstream :: "int \<Rightarrow> 64 word \<Rightarrow> telemetry \<Rightarrow> telemetry" where
  "ObserveUpstream status duration stats =
     (let stats = stats\<lparr>upstreamRequests := upstreamRequests stats + 1,
                        upstreamDurationNanos := upstreamDurationNanos stats + duration\<rparr>
      in if status = 0 then stats\<lparr>upstreamTransport := upstreamTransport stats + 1\<rparr>
         else if 200 \<le> status \<and> status < 300 then stats\<lparr>upstreamSuccess := upstreamSuccess stats + 1\<rparr>
         else if 400 \<le> status \<and> status < 500 then
           stats\<lparr>upstreamClientErrors := upstreamClientErrors stats + 1\<rparr>
         else stats\<lparr>upstreamServerErrors := upstreamServerErrors stats + 1\<rparr>)"

definition outcomes :: "telemetry \<Rightarrow> 64 word" where
  "outcomes stats =
     upstreamTransport stats + upstreamSuccess stats + upstreamClientErrors stats +
     upstreamServerErrors stats"

text \<open>The outcome classes always add up to the number of calls, wrap-around included.\<close>

lemma ObserveUpstream_balanced:
  "outcomes stats = upstreamRequests stats \<Longrightarrow>
    outcomes (ObserveUpstream status duration stats) =
      upstreamRequests (ObserveUpstream status duration stats)"
  by (simp add: outcomes_def ObserveUpstream_def Let_def add.commute add.left_commute)

end
