(* ===== verification/Go_Sha256.thy ===== *)
theory Go_Sha256
  imports Go_Strconv "HOL-Library.Word"
begin

text \<open>
  \<open>crypto/sha256.Sum256\<close> and \<open>encoding/hex.EncodeToString\<close>, which name an API key's principal: the
  FIPS 180-4 compression function on 32-bit words, over the padded message, and the digest printed
  as 64 lower-case hexadecimal digits. Nothing is claimed about collisions.
\<close>

unbundle bit_operations_syntax

type_synonym w32 = "32 word"

section \<open>The compression function\<close>

text \<open>
  The constants of the algorithm, from their definition: the first 32 bits of the fractional parts of
  the cube roots of the first 64 primes, and of the square roots of the first eight.
\<close>

definition first_primes :: "nat list" where
  "first_primes = filter (\<lambda>p. list_all (\<lambda>d. p mod d \<noteq> 0) [2..<p]) [2..<312]"

fun root_bits :: "nat \<Rightarrow> nat \<Rightarrow> nat \<Rightarrow> nat \<Rightarrow> nat" where
  "root_bits k target 0 r = r"
| "root_bits k target (Suc b) r =
     root_bits k target b (if (r + 2 ^ b) ^ k \<le> target then r + 2 ^ b else r)"

definition root_fraction :: "nat \<Rightarrow> nat \<Rightarrow> w32" where
  "root_fraction k p = of_nat (root_bits k (p * 2 ^ (32 * k)) 40 0)"

definition round_constants :: "w32 list" where
  "round_constants = map (root_fraction 3) first_primes"

datatype hash_state = Hash w32 w32 w32 w32 w32 w32 w32 w32

fun hash_of :: "w32 list \<Rightarrow> hash_state" where
  "hash_of [a, b, c, d, e, f, g, h] = Hash a b c d e f g h"
| "hash_of _ = Hash 0 0 0 0 0 0 0 0"

definition initial_hash :: hash_state where
  "initial_hash = hash_of (map (root_fraction 2) (take 8 first_primes))"

definition rotr :: "w32 \<Rightarrow> nat \<Rightarrow> w32" where
  "rotr x n = drop_bit n x OR push_bit (32 - n) x"

definition small_sigma0 :: "w32 \<Rightarrow> w32" where
  "small_sigma0 x = rotr x 7 XOR rotr x 18 XOR drop_bit 3 x"

definition small_sigma1 :: "w32 \<Rightarrow> w32" where
  "small_sigma1 x = rotr x 17 XOR rotr x 19 XOR drop_bit 10 x"

definition big_sigma0 :: "w32 \<Rightarrow> w32" where
  "big_sigma0 x = rotr x 2 XOR rotr x 13 XOR rotr x 22"

definition big_sigma1 :: "w32 \<Rightarrow> w32" where
  "big_sigma1 x = rotr x 6 XOR rotr x 11 XOR rotr x 25"

text \<open>The message schedule, newest word first, extended from 16 words to 64.\<close>

fun extend_schedule :: "nat \<Rightarrow> w32 list \<Rightarrow> w32 list" where
  "extend_schedule 0 ws = ws"
| "extend_schedule (Suc n) ws =
     extend_schedule n ((small_sigma1 (ws ! 1) + ws ! 6 + small_sigma0 (ws ! 14) + ws ! 15) # ws)"

fun hash_round :: "hash_state \<Rightarrow> w32 \<times> w32 \<Rightarrow> hash_state" where
  "hash_round (Hash a b c d e f g h) (k, w) =
     (let t1 = h + big_sigma1 e + ((e AND f) XOR (NOT e AND g)) + k + w;
          t2 = big_sigma0 a + ((a AND b) XOR (a AND c) XOR (b AND c))
      in Hash (t1 + t2) a b c (d + t1) e f g)"

fun add_hash :: "hash_state \<Rightarrow> hash_state \<Rightarrow> hash_state" where
  "add_hash (Hash a b c d e f g h) (Hash a' b' c' d' e' f' g' h') =
     Hash (a + a') (b + b') (c + c') (d + d') (e + e') (f + f') (g + g') (h + h')"

definition compress :: "hash_state \<Rightarrow> w32 list \<Rightarrow> hash_state" where
  "compress s block =
     add_hash s (foldl hash_round s (zip round_constants (rev (extend_schedule 48 (rev block)))))"

section \<open>Padding and blocks\<close>

definition pad_message :: "nat list \<Rightarrow> nat list" where
  "pad_message m =
     m @ [128] @ replicate ((119 - length m mod 64) mod 64) 0 @
     map (\<lambda>i. (8 * length m) div 256 ^ (7 - i) mod 256) [0..<8]"

fun words_of :: "nat list \<Rightarrow> w32 list" where
  "words_of (a # b # c # d # rest) = of_nat (((a * 256 + b) * 256 + c) * 256 + d) # words_of rest"
| "words_of _ = []"

fun hash_blocks :: "nat \<Rightarrow> hash_state \<Rightarrow> w32 list \<Rightarrow> hash_state" where
  "hash_blocks 0 s ws = s"
| "hash_blocks (Suc n) s ws = hash_blocks n (compress s (take 16 ws)) (drop 16 ws)"

fun hash_words :: "hash_state \<Rightarrow> w32 list" where
  "hash_words (Hash a b c d e f g h) = [a, b, c, d, e, f, g, h]"

text \<open>\<open>sha256.Sum256([]byte(s))\<close> as 32 bytes.\<close>

definition Sum256 :: "string \<Rightarrow> nat list" where
  "Sum256 s =
     (let padded = pad_message (map byte s)
      in concat (map (\<lambda>w. map (\<lambda>i. unat w div 256 ^ (3 - i) mod 256) [0..<4])
           (hash_words (hash_blocks (length padded div 64) initial_hash (words_of padded)))))"

text \<open>\<open>hex.EncodeToString\<close>.\<close>

definition EncodeToString :: "nat list \<Rightarrow> string" where
  "EncodeToString bs = concat (map (\<lambda>b. [digit_char (b div 16), digit_char (b mod 16)]) bs)"

lemma length_hash_words [simp]: "length (hash_words s) = 8"
  by (cases s) simp

lemma length_Sum256: "length (Sum256 s) = 32"
  by (cases "hash_blocks (length (pad_message (map byte s)) div 64) initial_hash
        (words_of (pad_message (map byte s)))")
     (simp add: Sum256_def Let_def)

lemma Sum256_bytes: "b \<in> set (Sum256 s) \<Longrightarrow> b < 256"
  by (auto simp: Sum256_def Let_def)

lemma length_EncodeToString [simp]: "length (EncodeToString bs) = 2 * length bs"
  by (induction bs) (simp_all add: EncodeToString_def)

lemma EncodeToString_graph: "\<forall>b\<in>set bs. b < 256 \<Longrightarrow> list_all is_graph (EncodeToString bs)"
  by (induction bs) (auto simp: EncodeToString_def intro!: digit_char_graph)

lemma EncodeToString_ne: "bs \<noteq> [] \<Longrightarrow> EncodeToString bs \<noteq> []"
  by (cases bs) (simp_all add: EncodeToString_def)

text \<open>Padding always fills whole blocks.\<close>

lemma pad_message_blocks: "length (pad_message m) mod 64 = 0"
proof -
  have pad: "(r + ((119 - r) mod 64 + 9)) mod 64 = 0" if "r < 64" for r :: nat
  proof (cases "r \<le> 55")
    case True
    then have "119 - r = 55 - r + 64" by linarith
    then have "(119 - r) mod 64 = 55 - r" by (simp only: mod_add_self2) simp
    with True show ?thesis by simp
  next
    case False
    with that have "(119 - r) mod 64 = 119 - r" "r + (119 - r + 9) = 128" by simp_all
    then show ?thesis by simp
  qed
  have "(l + ((119 - l mod 64) mod 64 + 9)) mod 64 = 0" for l :: nat
    using pad [of "l mod 64"] by (simp only: mod_add_left_eq mod_less_divisor)
  from this [of "length m"] show ?thesis by (simp add: pad_message_def ac_simps)
qed

end
