(* ===== verification/Guard.thy ===== *)
theory Guard
  imports Forwarding Config Telemetry Go_Sha256
begin

text \<open>
  The stateless part of \<open>internal/httpserver\<close>: what each middleware of the \<open>/mcp\<close> route decides
  about a request. A middleware either forwards the request, with the response headers it has set,
  or replies. \<open>newHandler\<close>'s order of the middlewares is the order of the composition below; the
  middlewares that keep state (the semaphore, the rate limiter, the per-principal limiter) sit
  between them in \<open>Server\<close>. The bearer-token check of the MCP SDK is the argument \<open>bearer\<close>.
\<close>

section \<open>Responses\<close>

datatype body = NoBody | ErrorBody string | ForwardError forward_error | Other string

record Response =
  status :: "int option"
  RespHeader :: Header
  Body :: body

definition empty_response :: Response where
  "empty_response = \<lparr>status = None, RespHeader = no_header, Body = NoBody\<rparr>"

definition set_header :: "string \<Rightarrow> string \<Rightarrow> Response \<Rightarrow> Response" where
  "set_header k v r = r\<lparr>RespHeader := SetHeader k v (RespHeader r)\<rparr>"

definition add_header :: "string \<Rightarrow> string \<Rightarrow> Response \<Rightarrow> Response" where
  "add_header k v r = r\<lparr>RespHeader := AddHeader k v (RespHeader r)\<rparr>"

text \<open>\<open>WriteHeader\<close>: only the first status counts.\<close>

definition write_header :: "int \<Rightarrow> Response \<Rightarrow> Response" where
  "write_header code r = (case status r of None \<Rightarrow> r\<lparr>status := Some code\<rparr> | Some _ \<Rightarrow> r)"

definition writeError :: "Response \<Rightarrow> int \<Rightarrow> body \<Rightarrow> Response" where
  "writeError response code message =
     (let r = set_header ''Content-Type'' ''application/json'' response;
          r = set_header ''Cache-Control'' ''no-store'' r;
          r = write_header code r
      in r\<lparr>Body := message\<rparr>)"

datatype outcome = Forward Request Response | Reply Response

fun and_then :: "outcome \<Rightarrow> (Request \<Rightarrow> Response \<Rightarrow> outcome) \<Rightarrow> outcome" where
  "and_then (Forward request response) k = k request response"
| "and_then (Reply response) k = Reply response"

section \<open>Hosts\<close>

definition stringInSlice :: "string list \<Rightarrow> string \<Rightarrow> bool" where
  "stringInSlice values candidate = list_ex (\<lambda>value. value = candidate) values"

definition containsHostname :: "golib \<Rightarrow> string list \<Rightarrow> string \<Rightarrow> bool" where
  "containsHostname L allowed candidate =
     (let candidate = lower L (Trim (TrimSpace candidate) ''[]'')
      in list_ex (\<lambda>value. lower L (Trim value ''[]'') = candidate) allowed)"

definition allowedRequestHost :: "golib \<Rightarrow> string \<Rightarrow> string list \<Rightarrow> bool" where
  "allowedRequestHost L value allowed =
     (let host = (case SplitHostPort value of Some (parsed, _) \<Rightarrow> parsed | None \<Rightarrow> value)
      in containsHostname L allowed host)"

section \<open>Origins\<close>

text \<open>The test that \<open>requireExactOrigin\<close> and \<open>canonicalOriginHeader\<close> share.\<close>

definition malformed_origin :: "URL \<Rightarrow> bool" where
  "malformed_origin parsed \<longleftrightarrow>
     HostPort parsed = [] \<or> User parsed \<noteq> None \<or> (Path parsed \<noteq> [] \<and> Path parsed \<noteq> ''/'') \<or>
     RawQuery parsed \<noteq> [] \<or> Fragment parsed \<noteq> []"

definition canonicalOriginHeader :: "golib \<Rightarrow> string \<Rightarrow> string" where
  "canonicalOriginHeader L value =
     (case parseRequestURI L value of
        None \<Rightarrow> []
      | Some parsed \<Rightarrow>
          if malformed_origin parsed then []
          else origin_string (lower L (Scheme parsed)) (lower L (HostPort parsed)))"

definition origin_refused :: body where
  "origin_refused = ErrorBody ''Origin header is not allowed''"

definition requestOrigin :: "golib \<Rightarrow> Request \<Rightarrow> string" where
  "requestOrigin L request =
     origin_string (if TLS request then ''https'' else ''http'') (lower L (Request.Host request))"

definition requireExactOrigin ::
  "golib \<Rightarrow> string list \<Rightarrow> Request \<Rightarrow> Response \<Rightarrow> outcome" where
  "requireExactOrigin L allowed request response =
     (let origin = Get (ReqHeader request) ''Origin''
      in if origin = [] then Forward request response
         else (case parseRequestURI L origin of
                 None \<Rightarrow> Reply (writeError response 403 origin_refused)
               | Some parsed \<Rightarrow>
                   if malformed_origin parsed then Reply (writeError response 403 origin_refused)
                   else (let canonical = origin_string (lower L (Scheme parsed)) (lower L (HostPort parsed))
                         in if canonical = requestOrigin L request \<or> stringInSlice allowed canonical
                            then Forward request response
                            else Reply (writeError response 403 origin_refused))))"

text \<open>
  \<open>http.CrossOriginProtection\<close> with the allowed origins as trusted origins, and the deny handler
  of \<open>newHandler\<close>.
\<close>

definition crossOriginAllowed :: "golib \<Rightarrow> string list \<Rightarrow> Request \<Rightarrow> bool" where
  "crossOriginAllowed L trusted request =
     (let origin = Get (ReqHeader request) ''Origin'';
          site = Get (ReqHeader request) ''Sec-Fetch-Site'';
          exempt = origin \<noteq> [] \<and> stringInSlice trusted origin
      in if stringInSlice [''GET'', ''HEAD'', ''OPTIONS''] (Method request) then True
         else if site = ''same-origin'' \<or> site = ''none'' then True
         else if site \<noteq> [] then exempt
         else if origin = [] then True
         else if (case urlParse L origin of None \<Rightarrow> False | Some o' \<Rightarrow> HostPort o' = Request.Host request)
         then True
         else exempt)"

definition crossOriginHandler ::
  "golib \<Rightarrow> string list \<Rightarrow> Request \<Rightarrow> Response \<Rightarrow> outcome" where
  "crossOriginHandler L trusted request response =
     (if crossOriginAllowed L trusted request then Forward request response
      else Reply (writeError response 403 origin_refused))"

definition allowCORS :: "golib \<Rightarrow> Config \<Rightarrow> Request \<Rightarrow> Response \<Rightarrow> outcome" where
  "allowCORS L cfg request response =
     (let origin = canonicalOriginHeader L (Get (ReqHeader request) ''Origin'')
      in if origin = [] then Forward request response
         else if \<not> stringInSlice (AllowedOrigins cfg) origin \<or>
                 \<not> allowedRequestHost L (Request.Host request) (AllowedHosts cfg)
         then Reply (writeError response 403 origin_refused)
         else
           (let r = set_header ''Access-Control-Allow-Origin'' origin response;
                r = set_header ''Access-Control-Allow-Credentials'' ''true'' r;
                r = set_header ''Access-Control-Expose-Headers'' ''Mcp-Session-Id, X-Request-ID'' r;
                r = add_header ''Vary'' ''Origin'' r
            in if Method request = ''OPTIONS''
               then (let r = set_header ''Access-Control-Allow-Methods'' ''GET, POST, DELETE, OPTIONS'' r;
                         r = set_header ''Access-Control-Allow-Headers'' ''Authorization, X-API-Key, Content-Type, Accept, MCP-Protocol-Version, MCP-Session-Id, Last-Event-ID'' r;
                         r = set_header ''Access-Control-Max-Age'' ''600'' r
                     in Reply (write_header 204 r))
               else Forward request r))"

section \<open>protectMCP\<close>

definition set_request_header :: "string \<Rightarrow> string \<Rightarrow> Request \<Rightarrow> Request" where
  "set_request_header k v request = request\<lparr>ReqHeader := SetHeader k v (ReqHeader request)\<rparr>"

definition del_request_header :: "string \<Rightarrow> Request \<Rightarrow> Request" where
  "del_request_header k request = request\<lparr>ReqHeader := DelHeader k (ReqHeader request)\<rparr>"

text \<open>The check of the \<open>x-api-key\<close> header: the status and message of a refusal.\<close>

definition api_key_error :: "Config \<Rightarrow> string list \<Rightarrow> (int \<times> body) option" where
  "api_key_error cfg keys =
     (if keys = [] \<or> TrimSpace (hd keys) = []
      then Some (401, ErrorBody ''Provide your Synthient API key in the x-api-key header.'')
      else (let maxKeyLength = (if MaxAPIKeyLength cfg \<le> 0 then 1024 else MaxAPIKeyLength cfg)
            in if length keys \<noteq> 1 \<or> hd keys \<noteq> TrimSpace (hd keys) \<or> CHR '','' \<in> set (hd keys) \<or>
                 maxKeyLength < int (length (hd keys))
               then Some (400, ErrorBody ''The x-api-key header must contain one bounded value without surrounding whitespace.'')
               else None))"

definition forward_client_ip :: "Config \<Rightarrow> Request \<Rightarrow> Response \<Rightarrow> outcome" where
  "forward_client_ip cfg request response =
     (let request = del_request_header ''X-Forwarded-For'' request
      in if ForwardClientIP cfg
         then (case CanonicalClientIP request (TrustProxyHops cfg) (TrustedProxyCIDRs cfg) of
                 Inl err \<Rightarrow> Reply (writeError response 400 (ForwardError err))
               | Inr clientIP \<Rightarrow> Forward (set_request_header ''X-Forwarded-For'' clientIP request) response)
         else Forward request response)"

definition protectMCP :: "golib \<Rightarrow> Config \<Rightarrow> Request \<Rightarrow> Response \<Rightarrow> outcome" where
  "protectMCP L cfg request response =
     (let response = set_header ''Cache-Control'' ''no-store'' response
      in if \<not> allowedRequestHost L (Request.Host request) (AllowedHosts cfg)
         then Reply (writeError response 403 (ErrorBody ''Host header is not allowed''))
         else if AuthMode cfg \<noteq> ''oauth''
         then (case api_key_error cfg (Values (ReqHeader request) ''X-API-Key'') of
                 Some (code, message) \<Rightarrow> Reply (writeError response code message)
               | None \<Rightarrow> forward_client_ip cfg request response)
         else forward_client_ip cfg (del_request_header ''X-API-Key'' request) response)"

section \<open>Principals and the handler's API client\<close>

definition requestPrincipal :: "Request \<Rightarrow> string" where
  "requestPrincipal request =
     (case Token request of
        Some token \<Rightarrow>
          if UserID token \<noteq> [] then ''oauth:'' @ UserID token
          else (let key = Get (ReqHeader request) ''X-API-Key''
                in if key \<noteq> [] then ''api-key:'' @ EncodeToString (Sum256 key) else [])
      | None \<Rightarrow>
          (let key = Get (ReqHeader request) ''X-API-Key''
           in if key \<noteq> [] then ''api-key:'' @ EncodeToString (Sum256 key) else []))"

text \<open>The key and the address the MCP handler's client sends upstream for a request it is given.\<close>

definition upstream_key :: "Config \<Rightarrow> Request \<Rightarrow> string" where
  "upstream_key cfg request =
     (if AuthMode cfg = ''oauth'' then SynthientAPIKey cfg else Get (ReqHeader request) ''X-API-Key'')"

definition upstream_forwarded_for :: "Request \<Rightarrow> string" where
  "upstream_forwarded_for request = Get (ReqHeader request) ''X-Forwarded-For''"

section \<open>Facts on the pieces\<close>

lemma and_then_Forward_iff:
  "and_then m k = Forward req resp \<longleftrightarrow> (\<exists>req' resp'. m = Forward req' resp' \<and> k req' resp' = Forward req resp)"
  by (cases m) auto

lemma and_then_Reply_iff:
  "and_then m k = Reply resp \<longleftrightarrow>
     m = Reply resp \<or> (\<exists>req' resp'. m = Forward req' resp' \<and> k req' resp' = Reply resp)"
  by (cases m) auto

lemma response_simps [simp]:
  "status (set_header k v r) = status r" "Body (set_header k v r) = Body r"
  "status (add_header k v r) = status r" "Body (add_header k v r) = Body r"
  "RespHeader (set_header k v r) = SetHeader k v (RespHeader r)"
  "RespHeader (add_header k v r) = AddHeader k v (RespHeader r)"
  "RespHeader (write_header c r) = RespHeader r" "Body (write_header c r) = Body r"
  by (simp_all add: set_header_def add_header_def write_header_def split: option.split)

lemma status_write_header [simp]: "status r = None \<Longrightarrow> status (write_header c r) = Some c"
  by (simp add: write_header_def)

lemma writeError_simps [simp]:
  "status r = None \<Longrightarrow> status (writeError r code message) = Some code"
  "Body (writeError r code message) = message"
  "Get (RespHeader (writeError r code message)) ''Cache-Control'' = ''no-store''"
  by (simp_all add: writeError_def Let_def header_simps)

lemma stringInSlice_iff [simp]: "stringInSlice values candidate \<longleftrightarrow> candidate \<in> set values"
  by (auto simp: stringInSlice_def list_ex_iff)

lemma api_key_error_None_iff:
  "api_key_error cfg keys = None \<longleftrightarrow>
     (\<exists>k. keys = [k] \<and> k \<noteq> [] \<and> TrimSpace k = k \<and> CHR '','' \<notin> set k \<and>
        int (length k) \<le> (if MaxAPIKeyLength cfg \<le> 0 then 1024 else MaxAPIKeyLength cfg))"
  by (cases keys) (auto simp: api_key_error_def Let_def)

lemma api_key_error_code:
  "api_key_error cfg keys = Some (code, message) \<Longrightarrow>
     code = (if keys = [] \<or> TrimSpace (hd keys) = [] then 401 else 400)"
  by (auto simp: api_key_error_def Let_def split: if_splits)

lemma request_header_simps [simp]:
  "ReqHeader (set_request_header k v r) = SetHeader k v (ReqHeader r)"
  "ReqHeader (del_request_header k r) = DelHeader k (ReqHeader r)"
  "Token (set_request_header k v r) = Token r" "Token (del_request_header k r) = Token r"
  "RemoteAddr (set_request_header k v r) = RemoteAddr r" "RemoteAddr (del_request_header k r) = RemoteAddr r"
  "Request.Host (set_request_header k v r) = Request.Host r" "Request.Host (del_request_header k r) = Request.Host r"
  "TLS (set_request_header k v r) = TLS r" "TLS (del_request_header k r) = TLS r"
  by (simp_all add: set_request_header_def del_request_header_def)

text \<open>With its forwarding header gone, a request behind a proxy has too short a chain.\<close>

lemma CanonicalClientIP_stripped:
  assumes "Values (ReqHeader request) ''X-Forwarded-For'' = []"
  shows "CanonicalClientIP request hops cidrs = Inr client \<longleftrightarrow>
    hops = 0 \<and> remoteIP (RemoteAddr request) = Inr client"
  using assms by (auto simp: CanonicalClientIP_def attempt_Inr_iff Let_def)

lemma forward_client_ip_Forward:
  assumes "forward_client_ip cfg request response = Forward request' response'"
  shows "response' = response \<and>
    (if ForwardClientIP cfg
     then \<exists>clientIP. CanonicalClientIP (del_request_header ''X-Forwarded-For'' request)
              (TrustProxyHops cfg) (TrustedProxyCIDRs cfg) = Inr clientIP \<and>
            request' = set_request_header ''X-Forwarded-For'' clientIP (del_request_header ''X-Forwarded-For'' request)
     else request' = del_request_header ''X-Forwarded-For'' request)"
  using assms by (auto simp: forward_client_ip_def Let_def split: sum.splits if_splits)

lemma forward_client_ip_Reply:
  assumes "forward_client_ip cfg request response = Reply r"
  shows "\<exists>e. r = writeError response 400 (ForwardError e)"
  using assms by (auto simp: forward_client_ip_def Let_def split: sum.splits if_splits)

lemma protectMCP_Forward:
  assumes "protectMCP L cfg request response = Forward request' response'"
  shows "allowedRequestHost L (Request.Host request) (AllowedHosts cfg) \<and>
    (AuthMode cfg \<noteq> ''oauth'' \<longrightarrow>
       api_key_error cfg (Values (ReqHeader request) ''X-API-Key'') = None) \<and>
    forward_client_ip cfg
      (if AuthMode cfg = ''oauth'' then del_request_header ''X-API-Key'' request else request)
      (set_header ''Cache-Control'' ''no-store'' response) = Forward request' response'"
  using assms by (auto simp: protectMCP_def Let_def split: option.splits if_splits)

section \<open>Host names as clients write them\<close>

lemma SplitHostPort_JoinHostPort:
  assumes h: "set h \<inter> set ''[]'' = {}" and p: "set port \<inter> set '':[]'' = {}"
  shows "SplitHostPort (JoinHostPort h port) = Some (h, port)"
proof (cases "CHR '':'' \<in> set h")
  case True
  let ?s = "''['' @ h @ '']:'' @ port"
  have "LastCut (CHR '':'') ?s = Some (''['' @ h @ '']'', port)"
    using p by (simp add: LastCut_Some)
  moreover have "CutByte (CHR '']'') ((CHR ''['' # h) @ CHR '']'' # '':'' @ port) = (CHR ''['' # h, '':'' @ port, True)"
    using h by (intro CutByte_append) auto
  ultimately show ?thesis
    using True h p by (auto simp: JoinHostPort_def SplitHostPort_def)
next
  case False
  have "LastCut (CHR '':'') (h @ '':'' @ port) = Some (h, port)"
    using p by (simp add: LastCut_Some)
  moreover have "hd (h @ '':'' @ port) \<noteq> CHR ''[''"
    using h by (cases h) auto
  ultimately show ?thesis
    using False h p by (auto simp: JoinHostPort_def SplitHostPort_def)
qed

lemma ascii_lower_graph: "is_graph (ascii_lower c) = is_graph c"
  by (auto simp: ascii_lower_def is_upper_def is_graph_def)

lemma ascii_lower_other: "c \<in> set ''[]:'' \<Longrightarrow> ascii_lower b = c \<longleftrightarrow> b = c"
proof -
  assume "c \<in> set ''[]:''"
  then have c: "byte c = 91 \<or> byte c = 93 \<or> byte c = 58" by (auto simp: byte_def)
  show ?thesis
  proof (cases "is_upper b")
    case True
    then have "byte (ascii_lower b) = byte b + 32" "97 \<le> byte b + 32" "byte b < 91"
      by (auto simp: ascii_lower_def is_upper_def)
    with c True show ?thesis by (auto simp: is_upper_def)
  next
    case False
    then show ?thesis by (simp add: ascii_lower_def)
  qed
qed

lemma same_letters:
  assumes "map ascii_lower h' = map ascii_lower h"
  shows "list_all is_graph h \<Longrightarrow> list_all is_graph h'"
    and "c \<in> set ''[]:'' \<Longrightarrow> c \<in> set h' \<longleftrightarrow> c \<in> set h"
proof -
  have s: "ascii_lower ` set h' = ascii_lower ` set h" using assms by (metis list.set_map)
  show "list_all is_graph h \<Longrightarrow> list_all is_graph h'"
    using s ascii_lower_graph by (auto simp: list_all_iff) (metis imageE imageI)
  show "c \<in> set h' \<longleftrightarrow> c \<in> set h" if "c \<in> set ''[]:''"
  proof -
    have "c \<in> set x \<longleftrightarrow> c \<in> ascii_lower ` set x" for x
      using ascii_lower_other [OF that] by (metis image_iff)
    with s show ?thesis by simp
  qed
qed

lemma containsHostname_same:
  assumes "h \<in> set allowed" "list_all is_graph h" "set h \<inter> set ''[]'' = {}"
    "map ascii_lower h' = map ascii_lower h"
  shows "containsHostname L allowed h'"
proof -
  have g: "list_all is_graph h'" using same_letters(1) assms(2,4) by blast
  have "set h' \<inter> set ''[]'' = {}"
    using same_letters(2) [OF assms(4)] assms(3) by auto
  then have "Trim (TrimSpace h') ''[]'' = h'" "Trim h ''[]'' = h"
    using assms(3) g by (auto simp: TrimSpace_graph intro!: Trim_id)
  then have "lower L (Trim (TrimSpace h') ''[]'') = lower L (Trim h ''[]'')"
    using graph_ascii [OF g] graph_ascii [OF assms(2)] assms(4) by (simp add: lower_def ToLower_def)
  then show ?thesis
    using assms(1) by (auto simp: containsHostname_def Let_def list_ex_iff)
qed
section \<open>Properties\<close>

text \<open>An API-key request to the default host, and the configuration of an unset environment.\<close>

definition key_request :: "string list \<Rightarrow> Request" where
  "key_request keys =
     \<lparr>Method = ''POST'', Request.Host = ''LocalHost:3000'', RemoteAddr = ''192.0.2.10:4321'', URLPath = ''/mcp'',
      TLS = False, ReqHeader = no_header(''X-Api-Key'' := keys), Token = None\<rparr>"

definition default_config :: Config where
  "default_config = stream_config api_url 15000"

lemma key_request_host:
  "allowedRequestHost L (Request.Host (key_request keys)) (AllowedHosts default_config)"
  by (simp add: key_request_def allowedRequestHost_def containsHostname_def default_config_def
      stream_config_def go_eval)

lemma key_request_admitted:
  "protectMCP L (default_config\<lparr>ForwardClientIP := True\<rparr>) (key_request [''k'']) empty_response =
     Forward (set_request_header ''X-Forwarded-For'' ''192.0.2.10''
                (del_request_header ''X-Forwarded-For'' (key_request [''k''])))
       (set_header ''Cache-Control'' ''no-store'' empty_response)"
  using key_request_host [of L "[''k'']"]
  by (simp add: protectMCP_def forward_client_ip_def api_key_error_def Values_def
      CanonicalClientIP_def remoteIP_def go_eval key_request_def default_config_def stream_config_def)

text \<open>A browser's request over TLS, and a configuration with CORS on for one origin.\<close>

definition origin_request :: "string \<Rightarrow> Request" where
  "origin_request origin =
     \<lparr>Method = ''POST'', Request.Host = ''localhost'', RemoteAddr = ''192.0.2.10:4321'', URLPath = ''/mcp'',
      TLS = True, ReqHeader = no_header(''Origin'' := [origin]), Token = None\<rparr>"

definition cors_config :: Config where
  "cors_config = default_config\<lparr>CORSEnabled := True, AllowedOrigins := [''https://app.example.com'']\<rparr>"

lemmas origin_eval = is_lower_def origin_string_def escape_host_def host_char_def go_eval

lemma canonical_origin_examples:
  "canonicalOriginHeader example_lib ''https://localhost'' = ''https://localhost''"
  "canonicalOriginHeader example_lib ''https://app.example.com'' = ''https://app.example.com''"
  by (simp_all add: canonicalOriginHeader_def example_lib_def plain_url_def malformed_origin_def origin_eval)

lemma origin_request_host:
  "allowedRequestHost L (Request.Host (origin_request origin)) (AllowedHosts cors_config)"
  by (simp add: origin_request_def allowedRequestHost_def containsHostname_def cors_config_def default_config_def
      stream_config_def go_eval)

lemma protectMCP_admits:
  assumes "protectMCP L cfg request response = Forward request' response'"
  shows "allowedRequestHost L (Request.Host request) (AllowedHosts cfg) \<and>
    (if AuthMode cfg = ''oauth'' then Values (ReqHeader request') ''X-API-Key'' = []
     else \<exists>k. Values (ReqHeader request) ''X-API-Key'' = [k] \<and> Values (ReqHeader request') ''X-API-Key'' = [k] \<and>
       k \<noteq> [] \<and> TrimSpace k = k \<and> CHR '','' \<notin> set k \<and>
       int (length k) \<le> (if MaxAPIKeyLength cfg \<le> 0 then 1024 else MaxAPIKeyLength cfg)) \<and>
    (if ForwardClientIP cfg
     then \<exists>a. Values (ReqHeader request') ''X-Forwarded-For'' = [a] \<and> canonicalIP a = Inr a
     else Values (ReqHeader request') ''X-Forwarded-For'' = []) \<and>
    Get (RespHeader response') ''Cache-Control'' = ''no-store'' \<and>
    Token request' = Token request \<and> Request.Host request' = Request.Host request \<and> TLS request' = TLS request \<and>
    Get (ReqHeader request') ''Origin'' = Get (ReqHeader request) ''Origin''"
proof -
  note f = protectMCP_Forward [OF assms]
  define stripped where
    "stripped = (if AuthMode cfg = ''oauth'' then del_request_header ''X-API-Key'' request else request)"
  from f have fwd: "forward_client_ip cfg stripped (set_header ''Cache-Control'' ''no-store'' response) =
      Forward request' response'" by (simp add: stripped_def)
  from forward_client_ip_Forward [OF fwd]
  have hdr: "Values (ReqHeader request') ''X-API-Key'' = Values (ReqHeader stripped) ''X-API-Key''"
    and resp: "response' = set_header ''Cache-Control'' ''no-store'' response"
    and xff: "if ForwardClientIP cfg
      then \<exists>a. Values (ReqHeader request') ''X-Forwarded-For'' = [a] \<and>
             canonicalIP a = Inr a
      else Values (ReqHeader request') ''X-Forwarded-For'' = []"
    by (auto simp: header_simps CanonicalClientIP_stripped dest: remoteIP_canonical split: if_splits)
  have "Token request' = Token stripped \<and> Request.Host request' = Request.Host stripped \<and>
      TLS request' = TLS stripped \<and> Get (ReqHeader request') ''Origin'' = Get (ReqHeader stripped) ''Origin''"
    using forward_client_ip_Forward [OF fwd] by (auto simp: header_simps split: if_splits)
  then have same: "Token request' = Token request \<and> Request.Host request' = Request.Host request \<and>
      TLS request' = TLS request \<and> Get (ReqHeader request') ''Origin'' = Get (ReqHeader request) ''Origin''"
    by (simp add: stripped_def header_simps)
  have key: "AuthMode cfg \<noteq> ''oauth'' \<Longrightarrow> api_key_error cfg (Values (ReqHeader request) ''X-API-Key'') = None"
    using f by blast
  show ?thesis
    using f hdr resp xff key same
    by (auto simp: stripped_def api_key_error_None_iff header_simps split: if_splits)
qed

text \<open>What \<open>protectMCP\<close> lets through. The host is allowed; in API-key mode exactly one key line
  arrives, not blank, without surrounding space or comma, and within the bound, and it is the one
  passed on; in OAuth mode no caller's key is passed on; and the forwarding header passed on holds
  nothing the client wrote: it is absent, or exactly one canonical address.\<close>

theorem protect_admits:
  assumes "protectMCP L cfg request response = Forward request' response'"
  shows "allowedRequestHost L (Request.Host request) (AllowedHosts cfg) \<and>
    (if AuthMode cfg = ''oauth'' then Values (ReqHeader request') ''X-API-Key'' = []
     else \<exists>k. Values (ReqHeader request) ''X-API-Key'' = [k] \<and> Values (ReqHeader request') ''X-API-Key'' = [k] \<and>
       k \<noteq> [] \<and> TrimSpace k = k \<and> CHR '','' \<notin> set k \<and>
       int (length k) \<le> (if MaxAPIKeyLength cfg \<le> 0 then 1024 else MaxAPIKeyLength cfg)) \<and>
    (if ForwardClientIP cfg
     then \<exists>a. Values (ReqHeader request') ''X-Forwarded-For'' = [a] \<and> canonicalIP a = Inr a
     else Values (ReqHeader request') ''X-Forwarded-For'' = []) \<and>
    Get (RespHeader response') ''Cache-Control'' = ''no-store''"
  using protectMCP_admits [OF assms] by blast

theorem protect_admits_witness:
  "\<exists>request' response'.
     protectMCP example_lib (default_config\<lparr>ForwardClientIP := True\<rparr>) (key_request [''k'']) empty_response =
       Forward request' response' \<and>
     Values (ReqHeader request') ''X-API-Key'' = [''k''] \<and>
     (\<exists>a. Values (ReqHeader request') ''X-Forwarded-For'' = [a] \<and> canonicalIP a = Inr a)"
  using protect_admits [OF key_request_admitted [of example_lib]] key_request_admitted [of example_lib]
  by (auto simp: key_request_def default_config_def stream_config_def Values_def)

text \<open>C23: what \<open>protectMCP\<close> refuses, and how. A host outside the list is 403 before anything about
  the credential is looked at; then, in API-key mode, a missing or blank key is 401 and a malformed
  one 400; then a client address that cannot be established is 400. Every refusal is uncacheable.\<close>

theorem protect_refusals:
  assumes "protectMCP L cfg request response = Reply r" and "status response = None"
  shows "status r = Some
      (if \<not> allowedRequestHost L (Request.Host request) (AllowedHosts cfg) then 403
       else if AuthMode cfg \<noteq> ''oauth'' \<and>
         (let keys = Values (ReqHeader request) ''X-API-Key'' in keys = [] \<or> TrimSpace (hd keys) = [])
       then 401 else 400) \<and>
    Get (RespHeader r) ''Cache-Control'' = ''no-store'' \<and>
    (status r = Some 400 \<longrightarrow>
       (\<exists>e. Body r = ForwardError e) \<and> ForwardClientIP cfg \<or>
       AuthMode cfg \<noteq> ''oauth'' \<and>
         (let keys = Values (ReqHeader request) ''X-API-Key''
          in 1 < length keys \<or> hd keys \<noteq> TrimSpace (hd keys) \<or> CHR '','' \<in> set (hd keys) \<or>
             (if MaxAPIKeyLength cfg \<le> 0 then 1024 else MaxAPIKeyLength cfg) < int (length (hd keys))))"
proof -
  have fwd: "(\<exists>e. r = writeError resp 400 (ForwardError e)) \<and> ForwardClientIP cfg"
    if "forward_client_ip cfg req resp = Reply r" for req resp
    using that by (auto simp: forward_client_ip_def Let_def split: sum.splits if_splits)
  show ?thesis
  proof (cases "allowedRequestHost L (Request.Host request) (AllowedHosts cfg)")
    case False
    with assms show ?thesis by (auto simp: protectMCP_def Let_def)
  next
    case host: True
    let ?keys = "Values (ReqHeader request) ''X-API-Key''"
    show ?thesis
    proof (cases "AuthMode cfg \<noteq> ''oauth'' \<and> api_key_error cfg ?keys \<noteq> None")
      case True
      then obtain code message where e: "api_key_error cfg ?keys = Some (code, message)" by auto
      with host True assms have r: "r = writeError (set_header ''Cache-Control'' ''no-store'' response) code message"
        by (simp add: protectMCP_def)
      have "code = 400 \<Longrightarrow> 1 < length ?keys \<or> hd ?keys \<noteq> TrimSpace (hd ?keys) \<or> CHR '','' \<in> set (hd ?keys) \<or>
          (if MaxAPIKeyLength cfg \<le> 0 then 1024 else MaxAPIKeyLength cfg) < int (length (hd ?keys))"
        using e by (cases ?keys) (auto simp: api_key_error_def Let_def split: if_splits)
      with host True r api_key_error_code [OF e] assms(2) show ?thesis by (auto simp: Let_def)
    next
      case False
      then have key: "AuthMode cfg \<noteq> ''oauth'' \<Longrightarrow> api_key_error cfg ?keys = None" by blast
      have "forward_client_ip cfg
          (if AuthMode cfg = ''oauth'' then del_request_header ''X-API-Key'' request else request)
          (set_header ''Cache-Control'' ''no-store'' response) = Reply r"
        using assms(1) host key by (auto simp: protectMCP_def Let_def split: if_splits)
      from fwd [OF this] obtain e
        where r: "r = writeError (set_header ''Cache-Control'' ''no-store'' response) 400 (ForwardError e)"
          and cfg: "ForwardClientIP cfg" by blast
      have "AuthMode cfg \<noteq> ''oauth'' \<Longrightarrow> ?keys \<noteq> [] \<and> TrimSpace (hd ?keys) \<noteq> []"
        using key by (auto simp: api_key_error_None_iff)
      with host r cfg assms(2) show ?thesis by (auto simp: Let_def)
    qed
  qed
qed

theorem protect_refusals_witness:
  "\<exists>r. protectMCP example_lib default_config (key_request []) empty_response = Reply r \<and> status r = Some 401"
proof -
  let ?r = "writeError (set_header ''Cache-Control'' ''no-store'' empty_response) 401
    (ErrorBody ''Provide your Synthient API key in the x-api-key header.'')"
  have reply: "protectMCP example_lib default_config (key_request []) empty_response = Reply ?r"
    using key_request_host [of example_lib "[]"]
    by (simp add: protectMCP_def api_key_error_def Values_def key_request_def default_config_def
        stream_config_def)
  have "status ?r = Some 401"
    using protect_refusals [OF reply] key_request_host [of example_lib "[]"]
    by (simp add: empty_response_def key_request_def Values_def default_config_def stream_config_def)
  with reply show ?thesis by blast
qed

text \<open>The forwarding header a client sends has no influence at all: whatever
  \<open>X-Forwarded-For\<close> lines a request carries, \<open>protectMCP\<close> does the same with it.\<close>

theorem protect_ignores_forwarding_header:
  "protectMCP L cfg (request\<lparr>ReqHeader := (ReqHeader request)(''X-Forwarded-For'' := lines)\<rparr>) response =
   protectMCP L cfg request response"
proof -
  have del: "DelHeader ''X-Forwarded-For'' (h(''X-Forwarded-For'' := lines)) = DelHeader ''X-Forwarded-For'' h"
    "DelHeader ''X-API-Key'' (h(''X-Forwarded-For'' := lines)) = (DelHeader ''X-API-Key'' h)(''X-Forwarded-For'' := lines)"
    for h by (simp_all add: DelHeader_def fun_upd_twist)
  let ?request = "request\<lparr>ReqHeader := (ReqHeader request)(''X-Forwarded-For'' := lines)\<rparr>"
  have "forward_client_ip cfg ?request resp = forward_client_ip cfg request resp"
    "forward_client_ip cfg (del_request_header ''X-API-Key'' ?request) resp =
     forward_client_ip cfg (del_request_header ''X-API-Key'' request) resp" for resp
    by (simp_all add: forward_client_ip_def del_request_header_def del)
  moreover have "Values (ReqHeader ?request) ''X-API-Key'' = Values (ReqHeader request) ''X-API-Key''"
    "Request.Host ?request = Request.Host request"
    by (simp_all add: Values_def)
  ultimately show ?thesis unfolding protectMCP_def Let_def by (simp only:)
qed



text \<open>An allowed host is recognised however the client writes it: in any letter case, with or
  without a port, and an IPv6 address in the brackets a \<open>Host\<close> header puts around it.\<close>

theorem allowed_host_forms:
  assumes "h \<in> set allowed" and "list_all is_graph h" and "set h \<inter> set ''[]'' = {}"
    and "map ascii_lower h' = map ascii_lower h" and "set port \<inter> set '':[]'' = {}"
  shows "allowedRequestHost L (JoinHostPort h' port) allowed \<and>
    (CHR '':'' \<notin> set h \<longrightarrow> allowedRequestHost L h' allowed)"
proof -
  have "set h' \<inter> set ''[]'' = {}"
    using same_letters(2) [OF assms(4)] assms(3) by auto
  then have "SplitHostPort (JoinHostPort h' port) = Some (h', port)"
    using assms(5) by (rule SplitHostPort_JoinHostPort)
  moreover have "CHR '':'' \<notin> set h \<Longrightarrow> SplitHostPort h' = None"
    using same_letters(2) [OF assms(4), of "CHR '':''"] LastCut_None [of "CHR '':''" h']
    by (simp add: SplitHostPort_def)
  ultimately show ?thesis
    using containsHostname_same [OF assms(1-4)] by (simp add: allowedRequestHost_def)
qed

theorem allowed_host_forms_witness:
  "allowedRequestHost example_lib (JoinHostPort ''LocalHost'' ''3000'') defaultAllowedHosts \<and>
   allowedRequestHost example_lib (JoinHostPort ''::1'' ''3000'') defaultAllowedHosts"
proof
  show "allowedRequestHost example_lib (JoinHostPort ''LocalHost'' ''3000'') defaultAllowedHosts"
    using allowed_host_forms [of "''localhost''" defaultAllowedHosts "''LocalHost''" "''3000''" example_lib]
    by (simp add: defaultAllowedHosts_def go_eval)
  show "allowedRequestHost example_lib (JoinHostPort ''::1'' ''3000'') defaultAllowedHosts"
    using allowed_host_forms [of "''::1''" defaultAllowedHosts "''::1''" "''3000''" example_lib]
    by (simp add: defaultAllowedHosts_def go_eval)
qed

text \<open>\<open>requireExactOrigin\<close> forwards exactly the requests without an \<open>Origin\<close> header and those
  whose canonical origin is the server's own or a configured one; it changes nothing about a request
  it forwards, and every other request is answered 403.\<close>

theorem exact_origin_decides:
  assumes "status response = None"
  shows "(let origin = Get (ReqHeader request) ''Origin'';
              admitted = (origin = [] \<or>
                (\<exists>parsed. parseRequestURI L origin = Some parsed \<and> \<not> malformed_origin parsed \<and>
                   canonicalOriginHeader L origin \<in> {requestOrigin L request} \<union> set allowed))
          in (admitted \<longrightarrow> requireExactOrigin L allowed request response = Forward request response) \<and>
             (\<not> admitted \<longrightarrow> (\<exists>r. requireExactOrigin L allowed request response = Reply r \<and> status r = Some 403)))"
  using assms by (auto simp: requireExactOrigin_def canonicalOriginHeader_def Let_def split: option.splits)

theorem exact_origin_decides_witness:
  "requireExactOrigin example_lib [] (key_request [''k'']) empty_response = Forward (key_request [''k'']) empty_response"
  using exact_origin_decides [of empty_response "key_request [''k'']" example_lib "[]"]
  by (simp add: Let_def key_request_def empty_response_def Get_def Values_def no_header_def)

text \<open>With CORS on, a request with a recognisable origin is answered 403 unless that origin is
  configured and the host allowed -- the server's own origin is no exception -- and only then are
  the credentialed CORS headers set, for that one origin and never a wildcard; a preflight is
  answered 204 and goes no further; a request without a recognisable origin is left untouched.\<close>

theorem cors_decides:
  assumes "status response = None"
  shows "(let origin = canonicalOriginHeader L (Get (ReqHeader request) ''Origin'');
              permitted = (origin \<in> set (AllowedOrigins cfg) \<and>
                allowedRequestHost L (Request.Host request) (AllowedHosts cfg));
              granted = (\<lambda>r. Values (RespHeader r) ''Access-Control-Allow-Origin'' = [origin] \<and>
                Values (RespHeader r) ''Access-Control-Allow-Credentials'' = [''true''] \<and>
                ''Origin'' \<in> set (Values (RespHeader r) ''Vary''))
          in if origin = [] then allowCORS L cfg request response = Forward request response
             else if \<not> permitted then
               \<exists>r. allowCORS L cfg request response = Reply r \<and> status r = Some 403 \<and>
                 Values (RespHeader r) ''Access-Control-Allow-Origin'' =
                   Values (RespHeader response) ''Access-Control-Allow-Origin''
             else if Method request = ''OPTIONS'' then
               \<exists>r. allowCORS L cfg request response = Reply r \<and> status r = Some 204 \<and> granted r
             else \<exists>r. allowCORS L cfg request response = Forward request r \<and> status r = None \<and> granted r)"
  using assms by (simp add: allowCORS_def Let_def header_simps writeError_def)

theorem cors_decides_witness:
  "requestOrigin example_lib (origin_request ''https://localhost'') = ''https://localhost'' \<and>
   (\<exists>r. allowCORS example_lib cors_config (origin_request ''https://localhost'') empty_response = Reply r \<and>
        status r = Some 403) \<and>
   (\<exists>r. allowCORS example_lib cors_config (origin_request ''https://app.example.com'') empty_response =
          Forward (origin_request ''https://app.example.com'') r)"
proof (intro conjI)
  have s: "status empty_response = None" by (simp add: empty_response_def)
  show "requestOrigin example_lib (origin_request ''https://localhost'') = ''https://localhost''"
    by (simp add: requestOrigin_def origin_request_def origin_eval)
  show "\<exists>r. allowCORS example_lib cors_config (origin_request ''https://localhost'') empty_response = Reply r \<and>
        status r = Some 403"
    using cors_decides [OF s, of example_lib "origin_request ''https://localhost''" cors_config]
    by (auto simp: Let_def canonical_origin_examples origin_request_def Get_def Values_def cors_config_def)
  show "\<exists>r. allowCORS example_lib cors_config (origin_request ''https://app.example.com'') empty_response =
          Forward (origin_request ''https://app.example.com'') r"
    using cors_decides [OF s, of example_lib "origin_request ''https://app.example.com''" cors_config]
      origin_request_host
    by (auto simp: Let_def canonical_origin_examples origin_request_def Get_def Values_def cors_config_def)
qed

end
