(* ===== verification/Rate_Limit.thy ===== *)
theory Rate_Limit
  imports Telemetry
begin

text \<open>
  The fixed-window rate limiter of \<open>httpserver\<close>: \<open>principalRateLimiter\<close> and the part of its
  \<open>handler\<close> that runs under the mutex, as one atomic step. Times are nanoseconds. The interface
  locale \<open>fixed_window\<close> states what one step does to the window of a principal; the budget of a
  minute is proved there once, and the limiter is its interpretation.
\<close>

section \<open>The code\<close>

definition Second :: int where "Second = 1000000000"
definition Minute :: int where "Minute = 60 * Second"

definition maxTrackedRatePrincipals :: nat where
  "maxTrackedRatePrincipals = 10000"

record principalRateWindow =
  count :: int
  resetAt :: int

record principalRateLimiter =
  limit :: int
  windows :: "(string, principalRateWindow) mapping"

text \<open>\<open>limitRatePerPrincipal\<close>: a limiter with no windows.\<close>

definition limitRatePerPrincipal :: "int \<Rightarrow> principalRateLimiter" where
  "limitRatePerPrincipal n = \<lparr>limit = n, windows = Mapping.empty\<rparr>"

datatype rate_decision = Admitted | TableFull | OverLimit int

definition expired :: "int \<Rightarrow> principalRateWindow \<Rightarrow> bool" where
  "expired now w \<longleftrightarrow> \<not> now < resetAt w"

text \<open>The loop that deletes every expired window.\<close>

definition sweep :: "int \<Rightarrow> (string, principalRateWindow) mapping \<Rightarrow> (string, principalRateWindow) mapping"
where
  "sweep now ws = Mapping.filter (\<lambda>_ w. \<not> expired now w) ws"

definition retry_after :: "int \<Rightarrow> principalRateWindow \<Rightarrow> int" where
  "retry_after now w = max 1 (quot (resetAt w - now + Second - 1) Second)"

definition rate_step ::
  "principalRateLimiter \<Rightarrow> string \<Rightarrow> int \<Rightarrow> principalRateLimiter \<times> rate_decision" where
  "rate_step limiter who now =
     (let found = Mapping.lookup (windows limiter) who;
          stale = (case found of Some w \<Rightarrow> expired now w | None \<Rightarrow> False);
          ws = (if stale then Mapping.delete who (windows limiter) else windows limiter);
          live = (if stale then None else found);
          ws = (if live = None \<and> maxTrackedRatePrincipals \<le> Mapping.size ws then sweep now ws else ws)
      in if live = None \<and> maxTrackedRatePrincipals \<le> Mapping.size ws
         then (limiter\<lparr>windows := ws\<rparr>, TableFull)
         else
           (let window = (case live of Some w \<Rightarrow> w | None \<Rightarrow> \<lparr>count = 0, resetAt = now + Minute\<rparr>)
            in if limit limiter \<le> count window
               then (limiter\<lparr>windows := ws\<rparr>, OverLimit (retry_after now window))
               else (limiter\<lparr>windows := Mapping.update who (window\<lparr>count := count window + 1\<rparr>) ws\<rparr>,
                     Admitted)))"

section \<open>What one step does\<close>

text \<open>The window of a principal that still counts at a time.\<close>

definition live_window :: "principalRateLimiter \<Rightarrow> string \<Rightarrow> int \<Rightarrow> principalRateWindow option" where
  "live_window limiter who now =
     (case Mapping.lookup (windows limiter) who of
        Some w \<Rightarrow> if expired now w then None else Some w
      | None \<Rightarrow> None)"

text \<open>The table a step sees after its deletions.\<close>

definition cleaned ::
  "principalRateLimiter \<Rightarrow> string \<Rightarrow> int \<Rightarrow> (string, principalRateWindow) mapping" where
  "cleaned limiter who now =
     (let ws = (if live_window limiter who now = None
                then Mapping.delete who (windows limiter) else windows limiter)
      in if live_window limiter who now = None \<and> maxTrackedRatePrincipals \<le> Mapping.size ws
         then sweep now ws else ws)"

lemma delete_absent: "Mapping.lookup m k = None \<Longrightarrow> Mapping.delete k m = m"
  by transfer auto

lemma rate_step_cases:
  "rate_step limiter who now =
     (case live_window limiter who now of
        None \<Rightarrow>
          if maxTrackedRatePrincipals \<le> Mapping.size (cleaned limiter who now)
          then (limiter\<lparr>windows := cleaned limiter who now\<rparr>, TableFull)
          else if limit limiter \<le> 0
          then (limiter\<lparr>windows := cleaned limiter who now\<rparr>,
                OverLimit (retry_after now \<lparr>count = 0, resetAt = now + Minute\<rparr>))
          else (limiter\<lparr>windows := Mapping.update who \<lparr>count = 1, resetAt = now + Minute\<rparr>
                  (cleaned limiter who now)\<rparr>, Admitted)
      | Some w \<Rightarrow>
          if limit limiter \<le> count w
          then (limiter, OverLimit (retry_after now w))
          else (limiter\<lparr>windows := Mapping.update who (w\<lparr>count := count w + 1\<rparr>) (windows limiter)\<rparr>,
                Admitted))"
  by (auto simp: rate_step_def live_window_def cleaned_def Let_def delete_absent
      split: option.splits)

section \<open>The interface: windows of a fixed period\<close>

text \<open>Running a step function over a schedule of (key, time) events, and its decisions.\<close>

fun run_events :: "('s \<Rightarrow> 'k \<Rightarrow> int \<Rightarrow> 's \<times> 'd) \<Rightarrow> 's \<Rightarrow> ('k \<times> int) list \<Rightarrow> 'd list" where
  "run_events step s [] = []"
| "run_events step s ((k, t) # es) = snd (step s k t) # run_events step (fst (step s k t)) es"

fun final_state :: "('s \<Rightarrow> 'k \<Rightarrow> int \<Rightarrow> 's \<times> 'd) \<Rightarrow> 's \<Rightarrow> ('k \<times> int) list \<Rightarrow> 's" where
  "final_state step s [] = s"
| "final_state step s ((k, t) # es) = final_state step (fst (step s k t)) es"

text \<open>How many events of a key in \<open>[lo, hi)\<close> were decided so that \<open>ok\<close> holds.\<close>

fun admissions ::
  "('s \<Rightarrow> 'k \<Rightarrow> int \<Rightarrow> 's \<times> 'd) \<Rightarrow> ('d \<Rightarrow> bool) \<Rightarrow> 's \<Rightarrow> ('k \<times> int) list \<Rightarrow> 'k \<Rightarrow> int \<Rightarrow> int \<Rightarrow> int"
where
  "admissions step ok s [] k lo hi = 0"
| "admissions step ok s ((q, t) # es) k lo hi =
     (if q = k \<and> lo \<le> t \<and> t < hi \<and> ok (snd (step s q t)) then 1 else 0) +
     admissions step ok (fst (step s q t)) es k lo hi"

lemma length_run_events [simp]: "length (run_events step s es) = length es"
  by (induction step s es rule: run_events.induct) auto

lemma admissions_filter:
  "admissions step ok s es k lo hi =
     int (length (filter (\<lambda>((q, t), d). q = k \<and> lo \<le> t \<and> t < hi \<and> ok d)
       (zip es (run_events step s es))))"
  by (induction step ok s es k lo hi rule: admissions.induct) auto

lemma admissions_none: "\<forall>(q, t)\<in>set es. t < lo \<or> hi \<le> t \<Longrightarrow> admissions step ok s es k lo hi = 0"
  by (induction step ok s es k lo hi rule: admissions.induct) auto

lemma admissions_append:
  "admissions step ok s (es @ fs) k lo hi =
     admissions step ok s es k lo hi + admissions step ok (final_state step s es) fs k lo hi"
  by (induction step ok s es k lo hi rule: admissions.induct) auto

text \<open>
  The contract of a fixed-window limiter: \<open>view\<close> is the count and the end of a key's window; a step
  that does not admit the key leaves its window alone or drops it once it is over; a step that
  admits it counts it in its live window, if that is not full, or opens a new one.
\<close>

locale fixed_window =
  fixes step :: "'s \<Rightarrow> 'k \<Rightarrow> int \<Rightarrow> 's \<times> 'd"
    and ok :: "'d \<Rightarrow> bool"
    and view :: "'s \<Rightarrow> 'k \<Rightarrow> (int \<times> int) option"
    and inv :: "'s \<Rightarrow> bool"
    and cap :: int
    and period :: int
  assumes inv_step: "inv s \<Longrightarrow> inv (fst (step s k t))"
    and inv_cap: "inv s \<Longrightarrow> 0 \<le> cap"
    and inv_view: "inv s \<Longrightarrow> view s k = Some (c, r) \<Longrightarrow> 1 \<le> c \<and> c \<le> cap"
    and untouched: "inv s \<Longrightarrow> k' \<noteq> k \<or> \<not> ok (snd (step s k t)) \<Longrightarrow>
      view (fst (step s k t)) k' = view s k' \<or>
      (\<exists>c r. view s k' = Some (c, r) \<and> r \<le> t \<and> view (fst (step s k t)) k' = None)"
    and counted: "inv s \<Longrightarrow> ok (snd (step s k t)) \<Longrightarrow> view s k = Some (c, r) \<Longrightarrow> t < r \<Longrightarrow>
      c < cap \<and> view (fst (step s k t)) k = Some (c + 1, r)"
    and opened: "inv s \<Longrightarrow> ok (snd (step s k t)) \<Longrightarrow> (\<forall>c r. view s k = Some (c, r) \<longrightarrow> r \<le> t) \<Longrightarrow>
      0 < cap \<and> view (fst (step s k t)) k = Some (1, t + period)"
begin

text \<open>
  The admissions a key has left before a horizon at most one period away: what its live window
  has left, and a whole window more if the horizon lies beyond its end.
\<close>

definition budget :: "(int \<times> int) option \<Rightarrow> int \<Rightarrow> int \<Rightarrow> int" where
  "budget v now hi =
     (case v of
        Some (c, r) \<Rightarrow> if now < r then (if hi \<le> r then cap - c else 2 * cap - c) else cap
      | None \<Rightarrow> cap)"

lemma budget_nonneg: "inv s \<Longrightarrow> 0 \<le> budget (view s k) now hi"
  using inv_cap [of s] inv_view [of s k] by (auto simp: budget_def split: option.splits prod.splits)

lemma budget_le: "inv s \<Longrightarrow> budget (view s k) now hi \<le> max cap (2 * cap - 1)"
  using inv_cap [of s] inv_view [of s k] by (auto simp: budget_def split: option.splits prod.splits)

lemma budget_untouched:
  assumes "inv s" "now \<le> t" "t < hi" "k' \<noteq> k \<or> \<not> ok (snd (step s k t))"
  shows "budget (view (fst (step s k t)) k') t hi \<le> budget (view s k') now hi"
  using untouched [OF assms(1,4)] inv_cap [OF assms(1)] inv_view [OF assms(1), of k'] assms(2,3)
  by (auto simp: budget_def split: option.splits prod.splits)

lemma budget_admitted:
  assumes "inv s" "now \<le> t" "t < hi" "hi \<le> t + period" "ok (snd (step s k t))"
  shows "budget (view (fst (step s k t)) k) t hi + 1 \<le> budget (view s k) now hi"
proof (cases "\<exists>c r. view s k = Some (c, r) \<and> t < r")
  case True
  then obtain c r where v: "view s k = Some (c, r)" "t < r" by blast
  with counted [OF assms(1,5)] have "view (fst (step s k t)) k = Some (c + 1, r)" by simp
  with v assms show ?thesis by (simp add: budget_def)
next
  case False
  then have "view (fst (step s k t)) k = Some (1, t + period)"
    using opened [OF assms(1,5)] by force
  with False assms inv_view [OF assms(1), of k] show ?thesis
    by (auto simp: budget_def split: option.splits prod.splits)
qed

lemma admissions_budget:
  assumes "inv s" "sorted (map snd es)" "\<forall>(q, t)\<in>set es. now \<le> t" "hi \<le> now + period"
  shows "admissions step ok s es k lo hi \<le> budget (view s k) now hi"
  using assms
proof (induction es arbitrary: s now)
  case Nil
  then show ?case using budget_nonneg by simp
next
  case (Cons e es)
  obtain q t where e: "e = (q, t)" by (cases e)
  let ?s = "fst (step s q t)"
  have later: "\<forall>(q', t')\<in>set es. t \<le> t'" using Cons.prems(2) by (auto simp: e)
  show ?case
  proof (cases "t < hi")
    case False
    then have "admissions step ok s (e # es) k lo hi = 0"
      using later by (intro admissions_none) (auto simp: e)
    then show ?thesis using budget_nonneg Cons.prems(1) by simp
  next
    case True
    have t: "now \<le> t" "hi \<le> t + period" using Cons.prems by (auto simp: e)
    have "admissions step ok ?s es k lo hi \<le> budget (view ?s k) t hi"
      using Cons.prems later t by (intro Cons.IH) (auto simp: e inv_step)
    moreover have "budget (view ?s k) t hi \<le> budget (view s k) now hi" if "q \<noteq> k \<or> \<not> ok (snd (step s q t))"
      using budget_untouched [OF Cons.prems(1) t(1) True, of k q] that by blast
    moreover have "budget (view ?s k) t hi + 1 \<le> budget (view s k) now hi" if "q = k" "ok (snd (step s q t))"
      using budget_admitted [OF Cons.prems(1) t(1) True t(2)] that by blast
    ultimately show ?thesis by (cases "q = k \<and> ok (snd (step s q t))") (auto simp: e)
  qed
qed

lemma inv_final: "inv s \<Longrightarrow> inv (final_state step s es)"
  by (induction es arbitrary: s) (auto simp: inv_step split_paired_all)

text \<open>
  A period of time sees at most two windows of one key, and of the first not the admission that
  opened it, unless it lies within a single window.
\<close>

lemma two_windows:
  assumes "inv s" "sorted (map snd es)"
  shows "admissions step ok s es k lo (lo + period) \<le> max cap (2 * cap - 1)"
proof -
  let ?before = "takeWhile (\<lambda>e. snd e < lo) es" and ?after = "dropWhile (\<lambda>e. snd e < lo) es"
  let ?s = "final_state step s ?before"
  have sorted: "sorted (map snd ?after)"
    using assms(2) by (metis map_append sorted_append takeWhile_dropWhile_id)
  have ge: "\<forall>(q, t)\<in>set ?after. lo \<le> t"
  proof (cases ?after)
    case (Cons e es')
    then have "\<not> snd e < lo" by (metis hd_dropWhile list.discI list.sel(1))
    with sorted Cons show ?thesis by auto
  next
    case Nil
    then show ?thesis by (simp only: list.set ball_empty)
  qed
  have "admissions step ok s es k lo (lo + period) =
      admissions step ok s ?before k lo (lo + period) + admissions step ok ?s ?after k lo (lo + period)"
    by (metis admissions_append takeWhile_dropWhile_id)
  also have "admissions step ok s ?before k lo (lo + period) = 0"
    by (rule admissions_none) (auto dest: set_takeWhileD)
  also have "admissions step ok ?s ?after k lo (lo + period) \<le> budget (view ?s k) lo (lo + period)"
    using assms sorted ge by (intro admissions_budget) (auto simp: inv_final)
  also have "\<dots> \<le> max cap (2 * cap - 1)" using assms by (intro budget_le inv_final)
  finally show ?thesis by simp
qed

text \<open>From a moment at which a key has no live window, one window's worth.\<close>

lemma one_window:
  assumes "inv s" "sorted (map snd es)" "\<forall>(q, t)\<in>set es. now \<le> t"
    and "\<forall>c r. view s k = Some (c, r) \<longrightarrow> r \<le> now"
  shows "admissions step ok s es k lo (now + period) \<le> cap"
proof -
  have "budget (view s k) now (now + period) = cap"
    using assms(4) by (auto simp: budget_def split: option.splits prod.splits)
  with admissions_budget [OF assms(1-3), of "now + period" k lo] show ?thesis by simp
qed

end

section \<open>The limiter satisfies the contract\<close>

definition admitted :: "rate_decision \<Rightarrow> bool" where
  "admitted d \<longleftrightarrow> d = Admitted"

definition window_view :: "principalRateLimiter \<Rightarrow> string \<Rightarrow> (int \<times> int) option" where
  "window_view limiter who =
     map_option (\<lambda>w. (count w, resetAt w)) (Mapping.lookup (windows limiter) who)"

text \<open>Every window holds between one and \<open>n\<close> requests, and the table stays within its bound.\<close>

definition rate_inv :: "int \<Rightarrow> principalRateLimiter \<Rightarrow> bool" where
  "rate_inv n limiter \<longleftrightarrow>
     0 \<le> n \<and> limit limiter = n \<and> finite (Mapping.keys (windows limiter)) \<and>
     Mapping.size (windows limiter) \<le> maxTrackedRatePrincipals \<and>
     (\<forall>who w. Mapping.lookup (windows limiter) who = Some w \<longrightarrow> 1 \<le> count w \<and> count w \<le> n)"

lemma lookup_sweep:
  "Mapping.lookup (sweep now ws) who =
     (case Mapping.lookup ws who of Some w \<Rightarrow> if expired now w then None else Some w | None \<Rightarrow> None)"
  unfolding sweep_def by transfer (auto split: option.splits)

lemma keys_sweep: "Mapping.keys (sweep now ws) \<subseteq> Mapping.keys ws"
  unfolding sweep_def by (rule keys_filter_subset)

lemma lookup_cleaned:
  "Mapping.lookup (cleaned limiter who now) q = Mapping.lookup (windows limiter) q \<or>
   (\<exists>w. Mapping.lookup (windows limiter) q = Some w \<and> expired now w \<and>
      Mapping.lookup (cleaned limiter who now) q = None)"
  by (auto simp: cleaned_def Let_def lookup_sweep lookup_delete_if live_window_def
      split: option.splits if_splits)

lemma lookup_cleaned_Some:
  "Mapping.lookup (cleaned limiter who now) q = Some w \<Longrightarrow> Mapping.lookup (windows limiter) q = Some w"
  using lookup_cleaned [of limiter who now q] by auto

lemma lookup_cleaned_self:
  "live_window limiter who now = None \<Longrightarrow> Mapping.lookup (cleaned limiter who now) who = None"
  by (auto simp: cleaned_def Let_def lookup_sweep lookup_delete_if)

lemma keys_cleaned: "Mapping.keys (cleaned limiter who now) \<subseteq> Mapping.keys (windows limiter)"
  using lookup_cleaned_Some by (force simp: keys_lookup)

lemma size_keys_mono:
  "finite (Mapping.keys b) \<Longrightarrow> Mapping.keys a \<subseteq> Mapping.keys b \<Longrightarrow> Mapping.size a \<le> Mapping.size b"
  by (simp add: size_keys card_mono)

lemma size_update:
  "finite (Mapping.keys m) \<Longrightarrow> Mapping.size (Mapping.update k v m) \<le> Mapping.size m + 1"
  by (simp add: size_keys card_insert_if)

lemma size_update_present:
  "Mapping.lookup m k \<noteq> None \<Longrightarrow> Mapping.size (Mapping.update k v m) = Mapping.size m"
  by (simp add: size_keys insert_absorb keys_lookup)

lemma live_window_Some:
  "live_window limiter who now = Some w \<longleftrightarrow>
     Mapping.lookup (windows limiter) who = Some w \<and> now < resetAt w"
  by (auto simp: live_window_def expired_def split: option.splits)

lemma rate_inv_step: "rate_inv n limiter \<Longrightarrow> rate_inv n (fst (rate_step limiter who now))"
proof -
  assume inv: "rate_inv n limiter"
  let ?c = "cleaned limiter who now"
  have fin: "finite (Mapping.keys (windows limiter))" using inv by (simp add: rate_inv_def)
  have c: "finite (Mapping.keys ?c)" "Mapping.size ?c \<le> maxTrackedRatePrincipals"
    using inv size_keys_mono [OF fin keys_cleaned] finite_subset [OF keys_cleaned fin]
    by (auto simp: rate_inv_def intro: le_trans)
  have counts: "1 \<le> count w \<and> count w \<le> n" if "Mapping.lookup ?c q = Some w" for q w
    using inv lookup_cleaned_Some [OF that] by (auto simp: rate_inv_def)
  have grow: "Mapping.size (Mapping.update q w ?c) \<le> maxTrackedRatePrincipals"
    if "\<not> maxTrackedRatePrincipals \<le> Mapping.size ?c" for q w
    using that size_update [OF c(1), of q w] by linarith
  show ?thesis
  proof (cases "live_window limiter who now")
    case None
    then show ?thesis
      using inv c counts grow
      by (auto simp: rate_step_cases rate_inv_def table_lookups)
  next
    case (Some w)
    then have w: "Mapping.lookup (windows limiter) who = Some w" by (simp add: live_window_Some)
    with inv have "0 \<le> count w" by (force simp: rate_inv_def)
    then show ?thesis
      using inv w Some
      by (auto simp: rate_step_cases rate_inv_def table_lookups size_update_present)
  qed
qed

lemma rate_inv_start: "0 \<le> n \<Longrightarrow> rate_inv n (limitRatePerPrincipal n)"
  by (simp add: rate_inv_def limitRatePerPrincipal_def)

interpretation rate: fixed_window rate_step admitted window_view "rate_inv n" n Minute for n
proof unfold_locales
  fix s k t c r k'
  show "rate_inv n s \<Longrightarrow> rate_inv n (fst (rate_step s k t))" by (rule rate_inv_step)
  show "rate_inv n s \<Longrightarrow> 0 \<le> n" by (simp add: rate_inv_def)
  show "rate_inv n s \<Longrightarrow> window_view s k = Some (c, r) \<Longrightarrow> 1 \<le> c \<and> c \<le> n"
    by (force simp: rate_inv_def window_view_def)
  show "window_view (fst (rate_step s k t)) k' = window_view s k' \<or>
      (\<exists>c r. window_view s k' = Some (c, r) \<and> r \<le> t \<and> window_view (fst (rate_step s k t)) k' = None)"
    if "rate_inv n s" "k' \<noteq> k \<or> \<not> admitted (snd (rate_step s k t))"
    using that lookup_cleaned [of s k t k']
    by (auto simp: rate_step_cases window_view_def table_lookups expired_def admitted_def
        split: option.splits if_splits)
  show "c < n \<and> window_view (fst (rate_step s k t)) k = Some (c + 1, r)"
    if "rate_inv n s" "admitted (snd (rate_step s k t))" "window_view s k = Some (c, r)" "t < r"
    using that
    by (auto simp: rate_step_cases window_view_def table_lookups admitted_def rate_inv_def
        live_window_def expired_def split: option.splits if_splits)
  show "0 < n \<and> window_view (fst (rate_step s k t)) k = Some (1, t + Minute)"
    if "rate_inv n s" "admitted (snd (rate_step s k t))"
      "\<forall>c r. window_view s k = Some (c, r) \<longrightarrow> r \<le> t"
    using that
    by (auto simp: rate_step_cases window_view_def table_lookups admitted_def rate_inv_def
        live_window_def expired_def split: option.splits if_splits)
qed

section \<open>The decision, read off the live windows\<close>

definition live_principals :: "principalRateLimiter \<Rightarrow> int \<Rightarrow> string set" where
  "live_principals limiter now = {q. live_window limiter q now \<noteq> None}"

lemma live_principals_keys: "live_principals limiter now \<subseteq> Mapping.keys (windows limiter)"
  by (auto simp: live_principals_def live_window_def keys_lookup split: option.splits)

lemma table_full_iff:
  assumes "finite (Mapping.keys (windows limiter))" "live_window limiter who now = None"
  shows "maxTrackedRatePrincipals \<le> Mapping.size (cleaned limiter who now) \<longleftrightarrow>
    maxTrackedRatePrincipals \<le> card (live_principals limiter now)"
proof -
  let ?d = "Mapping.delete who (windows limiter)"
  have sub: "live_principals limiter now \<subseteq> Mapping.keys ?d"
    using assms(2) live_principals_keys by (auto simp: live_principals_def)
  show ?thesis
  proof (cases "maxTrackedRatePrincipals \<le> Mapping.size ?d")
    case True
    then have c: "cleaned limiter who now = sweep now ?d" using assms(2) by (simp add: cleaned_def)
    have "Mapping.keys (sweep now ?d) = live_principals limiter now"
      using assms(2) by (auto simp: keys_lookup lookup_sweep live_principals_def live_window_def
          table_lookups split: option.splits if_splits)
    with c show ?thesis by (simp add: size_keys)
  next
    case False
    moreover have "card (live_principals limiter now) \<le> Mapping.size ?d"
      using assms(1) sub by (simp add: size_keys card_mono)
    ultimately show ?thesis using assms(2) by (simp add: cleaned_def)
  qed
qed

section \<open>Principals do not interfere\<close>

lemma no_sweep:
  assumes "Mapping.keys (windows limiter) \<subseteq> P" "finite P" "card P \<le> maxTrackedRatePrincipals"
    and "who \<in> P" "live_window limiter who now = None"
  shows "cleaned limiter who now = Mapping.delete who (windows limiter)"
    and "\<not> maxTrackedRatePrincipals \<le> Mapping.size (cleaned limiter who now)"
proof -
  have "Mapping.size (Mapping.delete who (windows limiter)) \<le> card (P - {who})"
    using assms(1,2) by (auto simp: size_keys simp del: card_Diff_insert intro!: card_mono)
  also have "\<dots> < card P" using assms(2,4) by (rule card_Diff1_less)
  finally have "\<not> maxTrackedRatePrincipals \<le> Mapping.size (Mapping.delete who (windows limiter))"
    using assms(3) by simp
  then show "cleaned limiter who now = Mapping.delete who (windows limiter)"
    and "\<not> maxTrackedRatePrincipals \<le> Mapping.size (cleaned limiter who now)"
    using assms(5) by (simp_all add: cleaned_def)
qed

text \<open>Two limiters with the same limit that know the same about one principal.\<close>

definition agree_on :: "string \<Rightarrow> principalRateLimiter \<Rightarrow> principalRateLimiter \<Rightarrow> bool" where
  "agree_on who a b \<longleftrightarrow>
     limit a = limit b \<and> Mapping.lookup (windows a) who = Mapping.lookup (windows b) who"

lemma agree_live: "agree_on who a b \<Longrightarrow> live_window a who now = live_window b who now"
  by (simp add: agree_on_def live_window_def)

lemma keys_rate_step:
  "Mapping.keys (windows (fst (rate_step limiter who now))) \<subseteq>
     insert who (Mapping.keys (windows limiter))"
  using keys_cleaned [of limiter who now] by (auto simp: rate_step_cases split: option.splits)

lemma agree_other:
  assumes "Mapping.keys (windows a) \<subseteq> P" "finite P" "card P \<le> maxTrackedRatePrincipals" "q \<in> P"
    and "q \<noteq> who" "agree_on who a b"
  shows "agree_on who (fst (rate_step a q t)) b"
  using assms(5,6) no_sweep(1) [OF assms(1-4)]
  by (auto simp: rate_step_cases agree_on_def table_lookups split: option.splits)

lemma agree_same:
  assumes "Mapping.keys (windows a) \<subseteq> P" "finite P" "card P \<le> maxTrackedRatePrincipals" "who \<in> P"
    and "Mapping.keys (windows b) \<subseteq> {who}" "agree_on who a b"
  shows "snd (rate_step a who t) = snd (rate_step b who t) \<and>
    agree_on who (fst (rate_step a who t)) (fst (rate_step b who t))"
proof -
  have one: "card {who} \<le> maxTrackedRatePrincipals" by (simp add: maxTrackedRatePrincipals_def)
  have live: "live_window a who t = live_window b who t" using assms(6) by (rule agree_live)
  show ?thesis
    using live assms(6) no_sweep [OF assms(1-4), of t] no_sweep [OF assms(5) _ one, of who t]
    by (auto simp: rate_step_cases agree_on_def table_lookups split: option.splits)
qed

lemma rate_projection:
  assumes "Mapping.keys (windows a) \<subseteq> P" "finite P" "card P \<le> maxTrackedRatePrincipals"
    and "set (map fst es) \<subseteq> P" "Mapping.keys (windows b) \<subseteq> {who}" "agree_on who a b"
  shows "map snd (filter (\<lambda>((q, t), d). q = who) (zip es (run_events rate_step a es))) =
    run_events rate_step b (filter (\<lambda>(q, t). q = who) es)"
  using assms
proof (induction es arbitrary: a b)
  case Nil
  then show ?case by simp
next
  case (Cons e es)
  obtain q t where e: "e = (q, t)" by (cases e)
  have q: "q \<in> P" using Cons.prems(4) by (simp add: e)
  have keys: "Mapping.keys (windows (fst (rate_step a q t))) \<subseteq> P"
    using keys_rate_step [of a q t] Cons.prems(1) q by auto
  show ?case
  proof (cases "q = who")
    case True
    have "Mapping.keys (windows (fst (rate_step b who t))) \<subseteq> {who}"
      using keys_rate_step [of b who t] Cons.prems(5) by auto
    then show ?thesis
      using True Cons.IH [OF keys] agree_same [OF Cons.prems(1-3) _ Cons.prems(5,6), of t] Cons.prems q
      by (simp add: e)
  next
    case False
    then show ?thesis
      using Cons.IH [OF keys] agree_other [OF Cons.prems(1-3) q False Cons.prems(6), of t] Cons.prems
      by (simp add: e)
  qed
qed

section \<open>When to retry\<close>

text \<open>No window ends later than a minute from now, if the clock does not run backwards.\<close>

definition resets_by :: "int \<Rightarrow> principalRateLimiter \<Rightarrow> bool" where
  "resets_by now limiter \<longleftrightarrow>
     (\<forall>who w. Mapping.lookup (windows limiter) who = Some w \<longrightarrow> resetAt w \<le> now + Minute)"

lemma resets_by_step: "resets_by now limiter \<Longrightarrow> now \<le> t \<Longrightarrow> resets_by t (fst (rate_step limiter who t))"
proof -
  assume r: "resets_by now limiter" "now \<le> t"
  have old: "resetAt w \<le> t + Minute" if "Mapping.lookup (windows limiter) q = Some w" for q w
    using r that by (fastforce simp: resets_by_def)
  then show ?thesis
    using old lookup_cleaned_Some [of limiter who t]
    by (auto simp: rate_step_cases resets_by_def table_lookups live_window_Some split: option.splits)
qed

lemma resets_by_mono: "resets_by now limiter \<Longrightarrow> now \<le> t \<Longrightarrow> resets_by t limiter"
  by (fastforce simp: resets_by_def)

lemma resets_by_final:
  "resets_by now limiter \<Longrightarrow> sorted (map snd es) \<Longrightarrow> \<forall>(q, t)\<in>set es. now \<le> t \<and> t \<le> hi \<Longrightarrow> now \<le> hi \<Longrightarrow>
    resets_by hi (final_state rate_step limiter es)"
proof (induction es arbitrary: limiter now)
  case Nil
  then show ?case by (auto intro: resets_by_mono)
next
  case (Cons e es)
  obtain q t where e: "e = (q, t)" by (cases e)
  have "resets_by t (fst (rate_step limiter q t))"
    using Cons.prems by (intro resets_by_step) (auto simp: e)
  then show ?case using Cons.prems by (auto simp: e intro!: Cons.IH)
qed

lemma retry_after_ceiling:
  assumes "now < resetAt w" "resetAt w \<le> now + Minute"
  shows "1 \<le> retry_after now w \<and> retry_after now w \<le> 60"
    and "resetAt w \<le> now + retry_after now w * Second"
    and "now + (retry_after now w - 1) * Second < resetAt w"
proof -
  define q where "q = (resetAt w - now + Second - 1) div Second"
  define m where "m = (resetAt w - now + Second - 1) mod Second"
  have S: "0 < Second" by (simp add: Second_def)
  have qm: "q * Second + m = resetAt w - now + Second - 1" by (simp add: q_def m_def)
  have m: "0 \<le> m" "m < Second" using S by (simp_all add: m_def)
  have "1 \<le> q"
    using assms(1) S unfolding q_def by (simp add: pos_imp_zdiv_pos_iff int_one_le_iff_zero_less)
  then have r: "retry_after now w = q"
    using assms(1) S by (simp add: retry_after_def quot_nonneg q_def)
  have "q < 61"
  proof (rule ccontr)
    assume "\<not> q < 61"
    then have "61 * Second \<le> q * Second" using S by simp
    with qm m assms(2) show False by (simp add: Minute_def)
  qed
  with \<open>1 \<le> q\<close> show "1 \<le> retry_after now w \<and> retry_after now w \<le> 60" by (simp add: r)
  show "resetAt w \<le> now + retry_after now w * Second" using qm m by (simp add: r)
  show "now + (retry_after now w - 1) * Second < resetAt w"
    using qm m by (simp add: r left_diff_distrib)
qed

lemma readmitted:
  assumes "rate_inv n limiter" "0 < n"
    and "Mapping.lookup (windows limiter) who = Some w" "resetAt w \<le> t"
  shows "snd (rate_step limiter who t) = Admitted"
proof -
  have live: "live_window limiter who t = None" using assms(3,4) by (simp add: live_window_def expired_def)
  have fin: "finite (Mapping.keys (windows limiter))" using assms(1) by (simp add: rate_inv_def)
  have "who \<in> Mapping.keys (windows limiter)" using assms(3) by (simp add: keys_lookup)
  moreover have "live_principals limiter t \<subseteq> Mapping.keys (windows limiter) - {who}"
    using live_principals_keys live by (auto simp: live_principals_def)
  ultimately have "card (live_principals limiter t) < Mapping.size (windows limiter)"
    unfolding size_keys using fin by (intro psubset_card_mono) auto
  then have "\<not> maxTrackedRatePrincipals \<le> card (live_principals limiter t)"
    using assms(1) by (simp add: rate_inv_def)
  then show ?thesis
    using assms(1,2) live table_full_iff [OF fin live] by (simp add: rate_step_cases rate_inv_def)
qed

section \<open>Properties\<close>

abbreviation rate_decisions :: "int \<Rightarrow> (string \<times> int) list \<Rightarrow> rate_decision list" where
  "rate_decisions n es \<equiv> run_events rate_step (limitRatePerPrincipal n) es"

abbreviation rate_after :: "int \<Rightarrow> (string \<times> int) list \<Rightarrow> principalRateLimiter" where
  "rate_after n es \<equiv> final_state rate_step (limitRatePerPrincipal n) es"

lemma rate_admissions:
  "admissions rate_step admitted s es who lo hi =
     int (length (filter (\<lambda>((q, t), d). q = who \<and> lo \<le> t \<and> t < hi \<and> d = Admitted)
       (zip es (run_events rate_step s es))))"
  by (simp add: admissions_filter admitted_def)

lemma rate_inv_after: "0 \<le> n \<Longrightarrow> rate_inv n (rate_after n es)"
  by (intro rate.inv_final rate_inv_start)

text \<open>Whatever the interleaving of principals and however the requests are spaced, no principal
  is admitted more than \<open>2 n - 1\<close> times in any minute, \<open>n\<close> being \<open>MAX_REQUESTS_PER_MINUTE\<close>: the
  exact bound of a fixed window opened by its first request.\<close>

theorem rate_limit_any_minute:
  assumes "1 \<le> n" and "sorted (map snd es)"
  shows "int (length (filter (\<lambda>((q, t), d). q = who \<and> lo \<le> t \<and> t < lo + Minute \<and> d = Admitted)
    (zip es (rate_decisions n es)))) \<le> 2 * n - 1"
proof -
  have "rate_inv n (limitRatePerPrincipal n)" using assms(1) by (intro rate_inv_start) simp
  from rate.two_windows [OF this assms(2), of who lo] assms(1)
  show ?thesis by (simp add: rate_admissions)
qed

text \<open>Four requests of one principal against a limit of two, in seconds 0, 59, 60 and 60.\<close>

definition burst :: "(string \<times> int) list" where
  "burst = [(''key'', 0), (''key'', 59 * Second), (''key'', 60 * Second), (''key'', 60 * Second)]"

lemma burst_decisions: "rate_decisions 2 burst = [Admitted, Admitted, Admitted, Admitted]"
  by (simp add: burst_def rate_step_cases limitRatePerPrincipal_def live_window_def expired_def
      cleaned_def table_lookups size_keys maxTrackedRatePrincipals_def Minute_def Second_def)

theorem rate_limit_any_minute_witness:
  "sorted (map snd burst) \<and>
   int (length (filter (\<lambda>((q, t), d). q = ''key'' \<and> Second \<le> t \<and> t < Second + Minute \<and> d = Admitted)
     (zip burst (rate_decisions 2 burst)))) = 2 * 2 - 1"
proof -
  have sorted: "sorted (map snd burst)" by (simp add: burst_def Second_def)
  have "int (length (filter (\<lambda>((q, t), d). q = ''key'' \<and> Second \<le> t \<and> t < Second + Minute \<and> d = Admitted)
      (zip burst (rate_decisions 2 burst)))) \<le> 2 * 2 - 1"
    by (rule rate_limit_any_minute) (use sorted in simp_all)
  moreover have "(filter (\<lambda>((q, t), d). q = ''key'' \<and> Second \<le> t \<and> t < Second + Minute \<and> d = Admitted)
      (zip burst (rate_decisions 2 burst))) =
      zip (tl burst) [Admitted, Admitted, Admitted]"
    unfolding burst_decisions by (simp add: burst_def Minute_def Second_def)
  ultimately show ?thesis using sorted by (simp add: burst_def)
qed



text \<open>What the limiter decides, in any state it can reach: a principal with a live window is
  admitted exactly when the window holds fewer than \<open>n\<close> requests; one without is admitted exactly
  when fewer than 10,000 principals have live windows, whatever expired windows the table still
  holds; and the table never exceeds 10,000 entries.\<close>

theorem rate_limit_decision:
  assumes "1 \<le> n"
  shows "snd (rate_step (rate_after n es) who now) =
      (case live_window (rate_after n es) who now of
         Some w \<Rightarrow> if n \<le> count w then OverLimit (retry_after now w) else Admitted
       | None \<Rightarrow>
           if maxTrackedRatePrincipals \<le> card (live_principals (rate_after n es) now)
           then TableFull else Admitted) \<and>
    Mapping.size (windows (rate_after n es)) \<le> maxTrackedRatePrincipals"
proof -
  have inv: "rate_inv n (rate_after n es)" using assms by (intro rate_inv_after) simp
  then have fin: "finite (Mapping.keys (windows (rate_after n es)))" "limit (rate_after n es) = n"
    by (simp_all add: rate_inv_def)
  show ?thesis
    using inv assms table_full_iff [OF fin(1)] fin(2)
    by (auto simp: rate_step_cases rate_inv_def split: option.splits)
qed

theorem rate_limit_decision_witness:
  "snd (rate_step (rate_after 2 burst) ''key'' (61 * Second)) = OverLimit 59"
proof -
  have "live_window (rate_after 2 burst) ''key'' (61 * Second) = Some \<lparr>count = 2, resetAt = 120 * Second\<rparr>"
    by (simp add: burst_def rate_step_cases limitRatePerPrincipal_def live_window_def expired_def
        cleaned_def table_lookups size_keys maxTrackedRatePrincipals_def Minute_def Second_def)
  then show ?thesis
    using rate_limit_decision [of 2 burst "''key''" "61 * Second"]
    by (simp add: retry_after_def quot_nonneg Second_def)
qed



end
