(* ===== verification/Slots.thy ===== *)
theory Slots
  imports Prelude
begin

text \<open>
  The two concurrency limiters of \<open>httpserver\<close> as what they are, counters of held slots: the
  buffered channel of \<open>limitConcurrent\<close>, and the mutex-protected map of
  \<open>limitConcurrentPerPrincipal\<close>. The locale \<open>slot_pool\<close> is what the server relies on from either;
  its client lemmas count the holders of a key.
\<close>

section \<open>The interface\<close>

locale slot_pool =
  fixes acquire :: "'s \<Rightarrow> 'k \<Rightarrow> 's option"
    and release :: "'s \<Rightarrow> 'k \<Rightarrow> 's"
    and held :: "'s \<Rightarrow> 'k \<Rightarrow> nat"
    and inv :: "'s \<Rightarrow> bool"
    and cap :: nat
  assumes acquire_inv: "inv s \<Longrightarrow> acquire s k = Some s' \<Longrightarrow> inv s'"
    and acquire_held: "inv s \<Longrightarrow> acquire s k = Some s' \<Longrightarrow> held s' = (held s)(k := held s k + 1)"
    and acquire_None: "inv s \<Longrightarrow> acquire s k = None \<longleftrightarrow> cap \<le> held s k"
    and release_inv: "inv s \<Longrightarrow> 0 < held s k \<Longrightarrow> inv (release s k)"
    and release_held: "inv s \<Longrightarrow> 0 < held s k \<Longrightarrow> held (release s k) = (held s)(k := held s k - 1)"
begin

text \<open>
  A pool in use: \<open>who i = Some k\<close> when party \<open>i\<close> holds a slot of key \<open>k\<close>. The pool counts the holders
  of every key, and no key has more than the capacity.
\<close>

definition accounted :: "'s \<Rightarrow> ('i \<Rightarrow> 'k option) \<Rightarrow> bool" where
  "accounted s who \<longleftrightarrow>
     inv s \<and> finite {i. who i \<noteq> None} \<and>
     (\<forall>k. held s k = card {i. who i = Some k}) \<and> (\<forall>k. card {i. who i = Some k} \<le> cap)"

lemma accounted_idle: "accounted s who \<Longrightarrow> (\<forall>i. who i = None) \<Longrightarrow> held s k = 0"
  by (simp add: accounted_def)

lemma holders_finite: "accounted s who \<Longrightarrow> finite {i. who i = Some k}"
  unfolding accounted_def by (rule finite_subset [of _ "{i. who i \<noteq> None}"]) auto

lemma accounted_acquire:
  assumes a: "accounted s who" and acq: "acquire s k = Some s'" and i: "who i = None"
  shows "accounted s' (who(i := Some k))"
proof -
  have inv: "inv s" using a by (simp add: accounted_def)
  have "\<not> cap \<le> held s k" using acquire_None [OF inv, of k] acq by simp
  moreover have "held s' k' = card {j. (who(i := Some k)) j = Some k'} \<and>
      card {j. (who(i := Some k)) j = Some k'} \<le> cap" for k'
  proof (cases "k' = k")
    case True
    have "{j. (who(i := Some k)) j = Some k} = insert i {j. who j = Some k}" by auto
    moreover have "card (insert i {j. who j = Some k}) = card {j. who j = Some k} + 1"
      using holders_finite [OF a, of k] i by simp
    ultimately show ?thesis
      using True a acquire_held [OF inv acq] \<open>\<not> cap \<le> held s k\<close> by (simp add: accounted_def)
  next
    case False
    then have "{j. (who(i := Some k)) j = Some k'} = {j. who j = Some k'}" using i by auto
    with False a acquire_held [OF inv acq] show ?thesis by (simp add: accounted_def)
  qed
  moreover have "{j. (who(i := Some k)) j \<noteq> None} = insert i {j. who j \<noteq> None}" by auto
  then have "finite {j. (who(i := Some k)) j \<noteq> None}" using a by (simp add: accounted_def)
  ultimately show ?thesis
    using acquire_inv [OF inv acq] by (simp add: accounted_def)
qed

lemma accounted_release:
  assumes a: "accounted s who" and i: "who i = Some k"
  shows "accounted (release s k) (who(i := None))"
proof -
  have inv: "inv s" using a by (simp add: accounted_def)
  have fin: "finite {j. who j = Some k}" by (rule holders_finite [OF a])
  have held: "held s k = card {j. who j = Some k}" using a by (simp add: accounted_def)
  with fin i have pos: "0 < held s k" by (auto simp: card_gt_0_iff)
  have "held (release s k) k' = card {j. (who(i := None)) j = Some k'} \<and>
      card {j. (who(i := None)) j = Some k'} \<le> cap" for k'
  proof (cases "k' = k")
    case True
    have "{j. (who(i := None)) j = Some k} = {j. who j = Some k} - {i}" by auto
    moreover have "card ({j. who j = Some k} - {i}) = card {j. who j = Some k} - 1"
      using fin i by (simp add: card_Diff_singleton)
    moreover have "card {j. who j = Some k} \<le> cap" using a by (simp add: accounted_def)
    ultimately show ?thesis
      using True release_held [OF inv pos] held by simp
  next
    case False
    then have "{j. (who(i := None)) j = Some k'} = {j. who j = Some k'}" using i by auto
    with False a release_held [OF inv pos] show ?thesis by (simp add: accounted_def)
  qed
  moreover have "finite {j. (who(i := None)) j \<noteq> None}"
    using a by (auto simp: accounted_def intro: finite_subset [of _ "{j. who j \<noteq> None}"])
  ultimately show ?thesis
    using release_inv [OF inv pos] by (simp add: accounted_def)
qed

text \<open>A party that neither acquires nor releases leaves the account as it is.\<close>

lemma accounted_unchanged: "accounted s who \<Longrightarrow> who i = v \<Longrightarrow> accounted s (who(i := v))"
  by (simp add: fun_upd_idem)

end

section \<open>The channel of limitConcurrent\<close>

text \<open>
  \<open>semaphore := make(chan struct{}, limit)\<close>: the number of values buffered. The send of the \<open>select\<close>
  is taken when the buffer has room; the deferred receive takes one value out.
\<close>

definition sem_send :: "int \<Rightarrow> nat \<Rightarrow> nat option" where
  "sem_send limit buffered = (if int buffered < limit then Some (buffered + 1) else None)"

definition sem_receive :: "nat \<Rightarrow> nat" where
  "sem_receive buffered = buffered - 1"

interpretation sem: slot_pool "\<lambda>s (_ :: unit). sem_send limit s" "\<lambda>s _. sem_receive s" "\<lambda>s _. s"
  "\<lambda>_. True" "nat limit" for limit
  by unfold_locales (auto simp: sem_send_def sem_receive_def split: if_splits)

section \<open>The map of limitConcurrentPerPrincipal\<close>

type_synonym inflight = "(string, int) mapping"

definition inflight_count :: "inflight \<Rightarrow> string \<Rightarrow> int" where
  "inflight_count m who = (case Mapping.lookup m who of Some n \<Rightarrow> n | None \<Rightarrow> 0)"

definition inflight_enter :: "int \<Rightarrow> inflight \<Rightarrow> string \<Rightarrow> inflight option" where
  "inflight_enter limit m who =
     (if limit \<le> inflight_count m who then None
      else Some (Mapping.update who (inflight_count m who + 1) m))"

definition inflight_leave :: "inflight \<Rightarrow> string \<Rightarrow> inflight" where
  "inflight_leave m who =
     (let m = Mapping.update who (inflight_count m who - 1) m
      in if inflight_count m who = 0 then Mapping.delete who m else m)"

text \<open>Every entry counts at least one request: a principal with none has no entry.\<close>

definition inflight_inv :: "inflight \<Rightarrow> bool" where
  "inflight_inv m \<longleftrightarrow> (\<forall>who n. Mapping.lookup m who = Some n \<longrightarrow> 1 \<le> n)"

lemma inflight_inv_empty [simp]: "inflight_inv Mapping.empty" "inflight_count Mapping.empty who = 0"
  by (simp_all add: inflight_inv_def inflight_count_def)

lemma inflight_nonneg: "inflight_inv m \<Longrightarrow> 0 \<le> inflight_count m who"
  by (fastforce simp: inflight_inv_def inflight_count_def split: option.splits)

lemma inflight_enter_Some:
  "inflight_inv m \<Longrightarrow> inflight_enter limit m who = Some m' \<Longrightarrow>
     inflight_inv m' \<and> inflight_count m' = (inflight_count m)(who := inflight_count m who + 1)"
  using inflight_nonneg [of m who]
  by (fastforce simp: inflight_enter_def inflight_inv_def inflight_count_def lookup_update_if fun_eq_iff
      split: if_splits option.splits)

lemma inflight_leave_held:
  "inflight_inv m \<Longrightarrow> 1 \<le> inflight_count m who \<Longrightarrow>
     inflight_inv (inflight_leave m who) \<and>
     inflight_count (inflight_leave m who) = (inflight_count m)(who := inflight_count m who - 1)"
  by (fastforce simp: inflight_leave_def inflight_inv_def inflight_count_def Let_def fun_eq_iff
      lookup_update_if lookup_delete_if split: if_splits option.splits)

interpretation inflight: slot_pool "inflight_enter limit" inflight_leave
  "\<lambda>m who. nat (inflight_count m who)" inflight_inv "nat limit" for limit
proof unfold_locales
  fix m k m'
  assume inv: "inflight_inv m"
  show "inflight_enter limit m k = Some m' \<Longrightarrow> inflight_inv m'"
    "inflight_enter limit m k = Some m' \<Longrightarrow>
      (\<lambda>who. nat (inflight_count m' who)) = (\<lambda>who. nat (inflight_count m who))(k := nat (inflight_count m k) + 1)"
    using inflight_enter_Some [OF inv] inflight_nonneg [OF inv, of k] by (auto simp: fun_eq_iff)
  show "(inflight_enter limit m k = None) = (nat limit \<le> nat (inflight_count m k))"
    using inflight_nonneg [OF inv, of k] by (auto simp: inflight_enter_def)
  show "0 < nat (inflight_count m k) \<Longrightarrow> inflight_inv (inflight_leave m k)"
    "0 < nat (inflight_count m k) \<Longrightarrow>
      (\<lambda>who. nat (inflight_count (inflight_leave m k) who)) =
      (\<lambda>who. nat (inflight_count m who))(k := nat (inflight_count m k) - 1)"
    using inflight_leave_held [OF inv, of k] by (auto simp: fun_eq_iff)
qed

text \<open>The map lists exactly the principals that hold a slot.\<close>

lemma inflight_keys: "inflight_inv m \<Longrightarrow> who \<in> Mapping.keys m \<longleftrightarrow> 0 < nat (inflight_count m who)"
  by (fastforce simp: keys_lookup inflight_inv_def inflight_count_def split: option.splits)

end
