(* ===== verification/Server.thy ===== *)
theory Server
  imports Guard Rate_Limit Slots
begin

text \<open>
  The \<open>/mcp\<close> route of \<open>internal/httpserver\<close> as \<open>newHandler\<close> composes it, with the state its
  middlewares share: the semaphore, the rate limiter, the per-principal map and the counters. Each
  request is a goroutine in some \<open>phase\<close>; \<open>advance\<close> runs one of them up to the next access to
  shared state, so the interleavings of the relation \<open>step\<close> are those the mutexes and atomics of the
  code allow. The deferred releases are phases of their own. The MCP handler (SDK code that calls the
  tools) is the argument \<open>handler\<close>: its response and the upstream calls it reported; the bearer check
  of the SDK is the argument \<open>bearer\<close>.
\<close>

section \<open>The limits newHandler derives from a configuration\<close>

definition maxConcurrent :: "Config \<Rightarrow> int" where
  "maxConcurrent cfg = (if MaxConcurrentRequests cfg \<le> 0 then 8 else MaxConcurrentRequests cfg)"

definition perPrincipal :: "Config \<Rightarrow> int" where
  "perPrincipal cfg = (if MaxConcurrentPerUser cfg \<le> 0 then 2 else MaxConcurrentPerUser cfg)"

definition maxRequestBody :: "Config \<Rightarrow> int" where
  "maxRequestBody cfg = (if MaxRequestBody cfg \<le> 0 then push_bit 20 1 else MaxRequestBody cfg)"

definition requestTimeout :: "Config \<Rightarrow> int" where
  "requestTimeout cfg = (if RequestTimeout cfg \<le> 0 then 15 * Second else RequestTimeout cfg)"

section \<open>Shared state\<close>

record server =
  semaphore :: nat
  limiter :: "principalRateLimiter option"
  inflight :: inflight
  stats :: telemetry

definition new_server :: "Config \<Rightarrow> server" where
  "new_server cfg =
     \<lparr>semaphore = 0,
      limiter = (if 0 < MaxRequestsPerMinute cfg
                 then Some (limitRatePerPrincipal (MaxRequestsPerMinute cfg)) else None),
      inflight = Mapping.empty, stats = telemetry_zero\<rparr>"

definition count_stat :: "(telemetry \<Rightarrow> telemetry) \<Rightarrow> server \<Rightarrow> server" where
  "count_stat f s = s\<lparr>stats := f (stats s)\<rparr>"

section \<open>The stateful middlewares\<close>

datatype 'a admission = Admit 'a | Refuse Response

definition limitConcurrent :: "int \<Rightarrow> server \<Rightarrow> Response \<Rightarrow> server \<times> unit admission" where
  "limitConcurrent cap s response =
     (case sem_send cap (semaphore s) of
        Some n \<Rightarrow> (s\<lparr>semaphore := n\<rparr>, Admit ())
      | None \<Rightarrow>
          (count_stat (\<lambda>t. t\<lparr>httpRejected := httpRejected t + 1\<rparr>) s,
           Refuse (writeError (set_header ''Retry-After'' ''1'' response) 503
             (ErrorBody ''The server is at its concurrent request limit; retry shortly.''))))"

definition unidentified :: "Response \<Rightarrow> Response" where
  "unidentified response =
     writeError response 401 (ErrorBody ''Unable to identify the authenticated principal.'')"

definition reject :: "server \<Rightarrow> Response \<Rightarrow> int \<Rightarrow> string \<Rightarrow> server \<times> unit admission" where
  "reject s response retryAfter message =
     (count_stat (\<lambda>t. t\<lparr>httpRateRejected := httpRateRejected t + 1\<rparr>) s,
      Refuse (writeError (set_header ''Retry-After'' (Itoa retryAfter) response) 429 (ErrorBody message)))"

definition rateHandler :: "server \<Rightarrow> int \<Rightarrow> Request \<Rightarrow> Response \<Rightarrow> server \<times> unit admission" where
  "rateHandler s now request response =
     (case limiter s of
        None \<Rightarrow> (s, Admit ())
      | Some lim \<Rightarrow>
          (let who = requestPrincipal request
           in if who = [] then (s, Refuse (unidentified response))
              else (case rate_step lim who now of
                      (lim', Admitted) \<Rightarrow> (s\<lparr>limiter := Some lim'\<rparr>, Admit ())
                    | (lim', TableFull) \<Rightarrow> reject (s\<lparr>limiter := Some lim'\<rparr>) response 1
                        ''The server is tracking its maximum number of active principals; retry shortly.''
                    | (lim', OverLimit retryAfter) \<Rightarrow> reject (s\<lparr>limiter := Some lim'\<rparr>) response retryAfter
                        ''The authenticated principal has reached its request rate limit.'')))"

definition limitConcurrentPerPrincipal ::
  "int \<Rightarrow> server \<Rightarrow> Request \<Rightarrow> Response \<Rightarrow> server \<times> string admission" where
  "limitConcurrentPerPrincipal cap s request response =
     (let who = requestPrincipal request
      in if who = [] then (s, Refuse (unidentified response))
         else (case inflight_enter cap (inflight s) who of
                 Some m \<Rightarrow> (s\<lparr>inflight := m\<rparr>, Admit who)
               | None \<Rightarrow>
                   (count_stat (\<lambda>t. t\<lparr>httpPrincipalRejected := httpPrincipalRejected t + 1\<rparr>) s,
                    Refuse (writeError (set_header ''Retry-After'' ''1'' response) 429
                      (ErrorBody ''The authenticated principal is at its concurrent request limit.'')))))"

section \<open>The route\<close>

text \<open>The middlewares outside the semaphore, and those between it and the rate limiter.\<close>

definition outer_guards :: "golib \<Rightarrow> Config \<Rightarrow> Request \<Rightarrow> Response \<Rightarrow> outcome" where
  "outer_guards L cfg request response =
     and_then (if CORSEnabled cfg then allowCORS L cfg request response else Forward request response)
       (\<lambda>request response.
          and_then (crossOriginHandler L (AllowedOrigins cfg) request response)
            (requireExactOrigin L (AllowedOrigins cfg)))"

type_synonym bearer_check = "Request \<Rightarrow> (Response, token_info) result"

definition oauthProtection :: "bearer_check \<Rightarrow> Request \<Rightarrow> Response \<Rightarrow> outcome" where
  "oauthProtection bearer request response =
     (case bearer request of
        Inl refusal \<Rightarrow> Reply refusal
      | Inr token \<Rightarrow> Forward (request\<lparr>Token := Some token\<rparr>) response)"

definition inner_guards ::
  "golib \<Rightarrow> Config \<Rightarrow> bearer_check \<Rightarrow> Request \<Rightarrow> Response \<Rightarrow> outcome" where
  "inner_guards L cfg bearer request response =
     and_then (if AuthMode cfg = ''oauth'' then oauthProtection bearer request response
               else Forward request response)
       (protectMCP L cfg)"

datatype phase =
    Arrived Request Response
  | HoldsSlot Request Response
  | Guarded Request Response
  | PassedRate Request Response
  | Running string Request Response
  | Leaving Response
  | Finished Response
  | Done Response

type_synonym mcp_handler = "Request \<Rightarrow> Response \<Rightarrow> Response \<times> (int \<times> 64 word) list"

definition observe_calls :: "(int \<times> 64 word) list \<Rightarrow> telemetry \<Rightarrow> telemetry" where
  "observe_calls calls t = foldl (\<lambda>t (code, duration). ObserveUpstream code duration t) t calls"

text \<open>\<open>observeRequests\<close> up to the inner handler: the counters, and the request id it is given.\<close>

definition begin_request :: "string \<Rightarrow> Request \<Rightarrow> server \<Rightarrow> server \<times> phase" where
  "begin_request requestID request s =
     (count_stat (\<lambda>t. t\<lparr>httpRequests := httpRequests t + 1, httpInflight := httpInflight t + 1\<rparr>) s,
      Arrived request (set_header ''X-Request-ID'' requestID empty_response))"

fun advance ::
  "golib \<Rightarrow> Config \<Rightarrow> bearer_check \<Rightarrow> mcp_handler \<Rightarrow> int \<Rightarrow> server \<Rightarrow> phase \<Rightarrow> server \<times> phase" where
  "advance L cfg bearer handler now s (Arrived request response) =
     (case outer_guards L cfg request response of
        Reply r \<Rightarrow> (s, Finished r)
      | Forward request response \<Rightarrow>
          (case limitConcurrent (maxConcurrent cfg) s response of
             (s, Admit _) \<Rightarrow> (s, HoldsSlot request response)
           | (s, Refuse r) \<Rightarrow> (s, Finished r)))"
| "advance L cfg bearer handler now s (HoldsSlot request response) =
     (case inner_guards L cfg bearer request response of
        Reply r \<Rightarrow> (s, Leaving r)
      | Forward request response \<Rightarrow> (s, Guarded request response))"
| "advance L cfg bearer handler now s (Guarded request response) =
     (case rateHandler s now request response of
        (s, Admit _) \<Rightarrow> (s, PassedRate request response)
      | (s, Refuse r) \<Rightarrow> (s, Leaving r))"
| "advance L cfg bearer handler now s (PassedRate request response) =
     (case limitConcurrentPerPrincipal (perPrincipal cfg) s request response of
        (s, Admit who) \<Rightarrow> (s, Running who request response)
      | (s, Refuse r) \<Rightarrow> (s, Leaving r))"
| "advance L cfg bearer handler now s (Running who request response) =
     (case handler request response of
        (r, calls) \<Rightarrow>
          (count_stat (observe_calls calls) (s\<lparr>inflight := inflight_leave (inflight s) who\<rparr>), Leaving r))"
| "advance L cfg bearer handler now s (Leaving r) =
     (s\<lparr>semaphore := sem_receive (semaphore s)\<rparr>, Finished r)"
| "advance L cfg bearer handler now s (Finished r) =
     (count_stat (\<lambda>t. t\<lparr>httpInflight := httpInflight t - 1\<rparr>) s, Done r)"
| "advance L cfg bearer handler now s (Done r) = (s, Done r)"

section \<open>Interleavings\<close>

type_synonym requests = "nat \<Rightarrow> phase option"

text \<open>
  A new request may arrive at any time; any request that is not done may take its next step, with
  whatever the clock says and whatever the handler and the bearer check return this time.
\<close>

inductive step ::
  "golib \<Rightarrow> Config \<Rightarrow> server \<times> requests \<Rightarrow> server \<times> requests \<Rightarrow> bool"
  for L cfg where
  arrive: "ps i = None \<Longrightarrow> Token request = None \<Longrightarrow> begin_request requestID request s = (s', ph) \<Longrightarrow>
     step L cfg (s, ps) (s', ps(i := Some ph))"
| progress: "ps i = Some ph \<Longrightarrow> (\<forall>r. ph \<noteq> Done r) \<Longrightarrow>
     advance L cfg bearer handler now s ph = (s', ph') \<Longrightarrow>
     step L cfg (s, ps) (s', ps(i := Some ph'))"

inductive reachable :: "golib \<Rightarrow> Config \<Rightarrow> server \<times> requests \<Rightarrow> bool" for L cfg where
  start: "reachable L cfg (new_server cfg, \<lambda>_. None)"
| next_step: "reachable L cfg \<sigma> \<Longrightarrow> step L cfg \<sigma> \<sigma>' \<Longrightarrow> reachable L cfg \<sigma>'"

inductive_cases stepE: "step L cfg \<sigma> \<sigma>'"

section \<open>What a step does to the shared state\<close>

fun slot_of :: "phase \<Rightarrow> unit option" where
  "slot_of (HoldsSlot _ _) = Some ()"
| "slot_of (Guarded _ _) = Some ()"
| "slot_of (PassedRate _ _) = Some ()"
| "slot_of (Running _ _ _) = Some ()"
| "slot_of (Leaving _) = Some ()"
| "slot_of _ = None"

fun principal_of :: "phase \<Rightarrow> string option" where
  "principal_of (Running who _ _) = Some who"
| "principal_of _ = None"

fun live :: "phase \<Rightarrow> bool" where
  "live (Done _) = False"
| "live _ = True"

lemma count_stat_simps [simp]:
  "semaphore (count_stat f s) = semaphore s" "limiter (count_stat f s) = limiter s"
  "inflight (count_stat f s) = inflight s" "stats (count_stat f s) = f (stats s)"
  by (simp_all add: count_stat_def)

lemma reject_simps [simp]:
  "fst (reject s r n m) = count_stat (\<lambda>t. t\<lparr>httpRateRejected := httpRateRejected t + 1\<rparr>) s"
  by (simp add: reject_def)

lemma observe_calls_inflight [simp]: "httpInflight (observe_calls calls t) = httpInflight t"
  unfolding observe_calls_def
  by (induction calls arbitrary: t) (auto simp: ObserveUpstream_def Let_def)

lemma observe_calls_balanced:
  "outcomes t = upstreamRequests t \<Longrightarrow> outcomes (observe_calls calls t) = upstreamRequests (observe_calls calls t)"
  unfolding observe_calls_def
  by (induction calls arbitrary: t) (auto simp: ObserveUpstream_balanced)

lemma rateHandler_shared:
  "rateHandler s now request response = (s', d) \<Longrightarrow>
     semaphore s' = semaphore s \<and> inflight s' = inflight s \<and>
     httpInflight (stats s') = httpInflight (stats s) \<and> outcomes (stats s') = outcomes (stats s) \<and>
     upstreamRequests (stats s') = upstreamRequests (stats s)"
  by (auto simp: rateHandler_def reject_def Let_def outcomes_def
      split: option.splits if_splits prod.splits rate_decision.splits)

lemmas advance_splits =
  outcome.splits option.splits prod.splits admission.splits if_splits

lemma advance_slot:
  assumes "advance L cfg bearer handler now s ph = (s', ph')"
  shows "(slot_of ph' = slot_of ph \<and> semaphore s' = semaphore s) \<or>
    (slot_of ph = None \<and> slot_of ph' = Some () \<and>
       sem_send (maxConcurrent cfg) (semaphore s) = Some (semaphore s')) \<or>
    (slot_of ph = Some () \<and> slot_of ph' = None \<and> semaphore s' = sem_receive (semaphore s))"
  using assms
  by (cases ph) (auto simp: limitConcurrent_def limitConcurrentPerPrincipal_def Let_def
      dest!: rateHandler_shared split: advance_splits)

lemma advance_principal:
  assumes "advance L cfg bearer handler now s ph = (s', ph')"
  shows "(principal_of ph' = principal_of ph \<and> inflight s' = inflight s) \<or>
    (\<exists>who. principal_of ph = None \<and> principal_of ph' = Some who \<and>
       inflight_enter (perPrincipal cfg) (inflight s) who = Some (inflight s')) \<or>
    (\<exists>who. principal_of ph = Some who \<and> principal_of ph' = None \<and> inflight s' = inflight_leave (inflight s) who)"
  using assms
  by (cases ph) (auto simp: limitConcurrent_def limitConcurrentPerPrincipal_def Let_def
      dest!: rateHandler_shared split: advance_splits)

lemma advance_live:
  assumes "advance L cfg bearer handler now s ph = (s', ph')"
  shows "(live ph' = live ph \<and> httpInflight (stats s') = httpInflight (stats s)) \<or>
    (live ph \<and> \<not> live ph' \<and> httpInflight (stats s') = httpInflight (stats s) - 1)"
  using assms
  by (cases ph) (auto simp: limitConcurrent_def limitConcurrentPerPrincipal_def Let_def
      dest!: rateHandler_shared split: advance_splits)

lemma advance_balanced:
  assumes "advance L cfg bearer handler now s ph = (s', ph')"
    and "outcomes (stats s) = upstreamRequests (stats s)"
  shows "outcomes (stats s') = upstreamRequests (stats s')"
proof -
  have "outcomes (t\<lparr>httpRejected := v\<rparr>) = outcomes t" "outcomes (t\<lparr>httpPrincipalRejected := v\<rparr>) = outcomes t"
    "outcomes (t\<lparr>httpInflight := v\<rparr>) = outcomes t" for t v
    by (simp_all add: outcomes_def)
  with assms show ?thesis
    by (cases ph) (auto simp: limitConcurrent_def limitConcurrentPerPrincipal_def Let_def
        observe_calls_balanced dest!: rateHandler_shared split: advance_splits)
qed

section \<open>The invariant\<close>

definition slots_held :: "requests \<Rightarrow> nat \<Rightarrow> unit option" where
  "slots_held ps i = Option.bind (ps i) slot_of"

definition principals_running :: "requests \<Rightarrow> nat \<Rightarrow> string option" where
  "principals_running ps i = Option.bind (ps i) principal_of"

definition live_requests :: "requests \<Rightarrow> nat set" where
  "live_requests ps = {i. \<exists>ph. ps i = Some ph \<and> live ph}"

definition server_inv :: "Config \<Rightarrow> server \<times> requests \<Rightarrow> bool" where
  "server_inv cfg \<sigma> = (case \<sigma> of (s, ps) \<Rightarrow>
     sem.accounted (maxConcurrent cfg) (semaphore s) (slots_held ps) \<and>
     inflight.accounted (perPrincipal cfg) (inflight s) (principals_running ps) \<and>
     finite (live_requests ps) \<and> httpInflight (stats s) = of_nat (card (live_requests ps)) \<and>
     outcomes (stats s) = upstreamRequests (stats s))"

lemma holders_update [simp]:
  "slots_held (ps(i := Some ph)) = (slots_held ps)(i := slot_of ph)"
  "principals_running (ps(i := Some ph)) = (principals_running ps)(i := principal_of ph)"
  by (auto simp: slots_held_def principals_running_def)

lemma live_update:
  "live_requests (ps(i := Some ph)) = (if live ph then insert i (live_requests ps) else live_requests ps - {i})"
  by (auto simp: live_requests_def)

lemma server_inv_start: "server_inv cfg (new_server cfg, \<lambda>_. None)"
  by (simp add: server_inv_def new_server_def sem.accounted_def inflight.accounted_def
      slots_held_def principals_running_def live_requests_def telemetry_zero_def outcomes_def)

lemma accounted_skip:
  "sem.accounted cap n who \<Longrightarrow> who i = v \<Longrightarrow> sem.accounted cap n (who(i := v))"
  "inflight.accounted cap m who' \<Longrightarrow> who' i = v' \<Longrightarrow> inflight.accounted cap m (who'(i := v'))"
  by (simp_all add: fun_upd_idem)

lemma server_inv_arrive:
  assumes inv: "server_inv cfg (s, ps)" and new: "ps i = None"
    and b: "begin_request requestID request s = (s', ph)"
  shows "server_inv cfg (s', ps(i := Some ph))"
proof -
  from b have ph: "slot_of ph = None" "principal_of ph = None" "live ph"
    and s': "semaphore s' = semaphore s" "inflight s' = inflight s"
      "httpInflight (stats s') = httpInflight (stats s) + 1"
      "outcomes (stats s') = outcomes (stats s)" "upstreamRequests (stats s') = upstreamRequests (stats s)"
    by (auto simp: begin_request_def outcomes_def)
  have "slots_held ps i = None" "principals_running ps i = None" "i \<notin> live_requests ps"
    using new by (simp_all add: slots_held_def principals_running_def live_requests_def)
  with inv ph s' show ?thesis
    by (simp add: server_inv_def live_update accounted_skip)
qed

lemma server_inv_progress:
  assumes inv: "server_inv cfg (s, ps)" and i: "ps i = Some ph" "\<forall>r. ph \<noteq> Done r"
    and a: "advance L cfg bearer handler now s ph = (s', ph')"
  shows "server_inv cfg (s', ps(i := Some ph'))"
proof -
  have holds: "slots_held ps i = slot_of ph" "principals_running ps i = principal_of ph"
    using i by (simp_all add: slots_held_def principals_running_def)
  have live: "live ph" "i \<in> live_requests ps"
    using i by (cases ph; simp add: live_requests_def)+
  have acc: "sem.accounted (maxConcurrent cfg) (semaphore s) (slots_held ps)"
    "inflight.accounted (perPrincipal cfg) (inflight s) (principals_running ps)"
    using inv by (simp_all add: server_inv_def)
  have "sem.accounted (maxConcurrent cfg) (semaphore s') ((slots_held ps)(i := slot_of ph'))"
    using advance_slot [OF a]
  proof (elim disjE conjE)
    assume "slot_of ph' = slot_of ph" "semaphore s' = semaphore s"
    with acc(1) holds(1) show ?thesis by (simp add: accounted_skip)
  next
    assume "slot_of ph = None" "slot_of ph' = Some ()"
      "sem_send (maxConcurrent cfg) (semaphore s) = Some (semaphore s')"
    with acc(1) holds(1) show ?thesis by (simp add: sem.accounted_acquire)
  next
    assume "slot_of ph = Some ()" "slot_of ph' = None" "semaphore s' = sem_receive (semaphore s)"
    with acc(1) holds(1) show ?thesis by (simp add: sem.accounted_release)
  qed
  moreover have "inflight.accounted (perPrincipal cfg) (inflight s') ((principals_running ps)(i := principal_of ph'))"
    using advance_principal [OF a]
  proof (elim disjE conjE exE)
    assume "principal_of ph' = principal_of ph" "inflight s' = inflight s"
    with acc(2) holds(2) show ?thesis by (simp add: accounted_skip)
  next
    fix who
    assume "principal_of ph = None" "principal_of ph' = Some who"
      "inflight_enter (perPrincipal cfg) (inflight s) who = Some (inflight s')"
    with acc(2) holds(2) show ?thesis by (simp add: inflight.accounted_acquire)
  next
    fix who
    assume "principal_of ph = Some who" "principal_of ph' = None" "inflight s' = inflight_leave (inflight s) who"
    with acc(2) holds(2) show ?thesis by (simp add: inflight.accounted_release)
  qed
  moreover have "finite (live_requests (ps(i := Some ph')))"
    using inv by (simp add: server_inv_def live_update)
  moreover have "httpInflight (stats s') = of_nat (card (live_requests (ps(i := Some ph'))))"
  proof (cases "live ph'")
    case True
    with advance_live [OF a] live(1) have "httpInflight (stats s') = httpInflight (stats s)" by blast
    moreover have "live_requests (ps(i := Some ph')) = live_requests ps"
      using True live(2) by (simp add: live_update insert_absorb)
    moreover have "httpInflight (stats s) = of_nat (card (live_requests ps))"
      using inv by (simp add: server_inv_def)
    ultimately show ?thesis by (simp only:)
  next
    case False
    with advance_live [OF a] live(1) have "httpInflight (stats s') = httpInflight (stats s) - 1" by blast
    moreover have "card (live_requests ps) = card (live_requests ps - {i}) + 1"
      using card_Suc_Diff1 [OF _ live(2)] inv by (simp add: server_inv_def)
    moreover have "httpInflight (stats s) = of_nat (card (live_requests ps))"
      using inv by (simp add: server_inv_def)
    moreover have "live_requests (ps(i := Some ph')) = live_requests ps - {i}"
      using False by (simp add: live_update)
    ultimately show ?thesis by (simp only: of_nat_add of_nat_1 add_diff_cancel_right')
  qed
  moreover have "outcomes (stats s') = upstreamRequests (stats s')"
    using advance_balanced [OF a] inv by (simp add: server_inv_def)
  ultimately show ?thesis by (simp add: server_inv_def)
qed

lemma server_inv_reachable: "reachable L cfg \<sigma> \<Longrightarrow> server_inv cfg \<sigma>"
proof (induction rule: reachable.induct)
  case start
  show ?case by (rule server_inv_start)
next
  case (next_step \<sigma> \<sigma>')
  from next_step.hyps(2) next_step.IH show ?case
    by (cases rule: step.cases) (auto intro: server_inv_arrive server_inv_progress)
qed

section \<open>What the phase of a request says about it\<close>

text \<open>
  Past the outer guards a request's origin is acceptable; past the inner ones it is a request
  \<open>protectMCP\<close> forwarded, with a token in OAuth mode and none otherwise; running, its principal is
  identified.
\<close>

definition origin_ok :: "golib \<Rightarrow> Config \<Rightarrow> Request \<Rightarrow> bool" where
  "origin_ok L cfg request \<longleftrightarrow>
     Get (ReqHeader request) ''Origin'' = [] \<or>
     canonicalOriginHeader L (Get (ReqHeader request) ''Origin'') \<in>
       {requestOrigin L request} \<union> set (AllowedOrigins cfg)"

definition admitted_by_guards :: "golib \<Rightarrow> Config \<Rightarrow> Request \<Rightarrow> Response \<Rightarrow> bool" where
  "admitted_by_guards L cfg request response \<longleftrightarrow>
     (\<exists>request1 response1 token. origin_ok L cfg request1 \<and>
        (AuthMode cfg = ''oauth'' \<longleftrightarrow> token \<noteq> None) \<and>
        protectMCP L cfg (request1\<lparr>Token := token\<rparr>) response1 = Forward request response)"

fun phase_ok :: "golib \<Rightarrow> Config \<Rightarrow> phase \<Rightarrow> bool" where
  "phase_ok L cfg (Arrived request response) = (Token request = None)"
| "phase_ok L cfg (HoldsSlot request response) = (Token request = None \<and> origin_ok L cfg request)"
| "phase_ok L cfg (Guarded request response) = admitted_by_guards L cfg request response"
| "phase_ok L cfg (PassedRate request response) = admitted_by_guards L cfg request response"
| "phase_ok L cfg (Running who request response) =
     (admitted_by_guards L cfg request response \<and> who = requestPrincipal request \<and> who \<noteq> [])"
| "phase_ok L cfg _ = True"

lemma requireExactOrigin_Forward:
  "requireExactOrigin L (AllowedOrigins cfg) request response = Forward request' response' \<Longrightarrow>
     request' = request \<and> origin_ok L cfg request"
  by (auto simp: requireExactOrigin_def origin_ok_def canonicalOriginHeader_def Let_def
      split: if_splits option.splits)

lemma outer_guards_Forward:
  "outer_guards L cfg request response = Forward request' response' \<Longrightarrow>
     request' = request \<and> origin_ok L cfg request"
  by (auto simp: outer_guards_def and_then_Forward_iff crossOriginHandler_def allowCORS_def Let_def
      dest!: requireExactOrigin_Forward split: if_splits)

lemma inner_guards_Forward:
  assumes "inner_guards L cfg bearer request response = Forward request' response'" "Token request = None"
  shows "\<exists>token. (AuthMode cfg = ''oauth'' \<longleftrightarrow> token \<noteq> None) \<and>
    protectMCP L cfg (request\<lparr>Token := token\<rparr>) response = Forward request' response'"
proof (cases "AuthMode cfg = ''oauth''")
  case True
  with assms show ?thesis
    by (auto simp: inner_guards_def and_then_Forward_iff oauthProtection_def split: sum.splits)
next
  case False
  moreover have "request\<lparr>Token := None\<rparr> = request" using assms(2) by simp
  ultimately show ?thesis using assms(1) by (intro exI [of _ None]) (simp add: inner_guards_def)
qed

lemma advance_phase_ok:
  assumes "advance L cfg bearer handler now s ph = (s', ph')" "phase_ok L cfg ph"
  shows "phase_ok L cfg ph'"
proof (cases ph)
  case (Arrived request response)
  with assms show ?thesis
    by (auto simp: limitConcurrent_def dest!: outer_guards_Forward split: advance_splits)
next
  case (HoldsSlot request response)
  show ?thesis
  proof (cases "inner_guards L cfg bearer request response")
    case (Forward request' response')
    with HoldsSlot assms(1) have "ph' = Guarded request' response'" by simp
    moreover have "admitted_by_guards L cfg request' response'"
      unfolding admitted_by_guards_def
      using inner_guards_Forward [OF Forward] HoldsSlot assms(2) by fastforce
    ultimately show ?thesis by simp
  qed (use HoldsSlot assms(1) in auto)
qed (use assms in \<open>auto simp: limitConcurrentPerPrincipal_def Let_def split: advance_splits\<close>)

lemma reachable_phase_ok: "reachable L cfg (s, ps) \<Longrightarrow> ps i = Some ph \<Longrightarrow> phase_ok L cfg ph"
proof (induction "(s, ps)" arbitrary: s ps i ph rule: reachable.induct)
  case start
  then show ?case by simp
next
  case (next_step \<sigma>)
  obtain s0 ps0 where \<sigma>: "\<sigma> = (s0, ps0)" by (cases \<sigma>)
  from next_step.hyps(3) [unfolded \<sigma>] show ?case
  proof (cases rule: step.cases)
    case (arrive j requestID request ph')
    with next_step.prems next_step.hyps(2) [OF \<sigma>] show ?thesis
      by (auto simp: begin_request_def split: if_splits)
  next
    case (progress j ph0 bearer handler now ph')
    with next_step.prems next_step.hyps(2) [OF \<sigma>] show ?thesis
      by (auto split: if_splits intro: advance_phase_ok)
  qed
qed

section \<open>Termination\<close>

text \<open>How many steps of its own a request still has.\<close>

fun remaining :: "phase \<Rightarrow> nat" where
  "remaining (Arrived _ _) = 7"
| "remaining (HoldsSlot _ _) = 6"
| "remaining (Guarded _ _) = 5"
| "remaining (PassedRate _ _) = 4"
| "remaining (Running _ _ _) = 3"
| "remaining (Leaving _) = 2"
| "remaining (Finished _) = 1"
| "remaining (Done _) = 0"

lemma remaining_zero: "remaining ph = 0 \<longleftrightarrow> (\<exists>r. ph = Done r)"
  by (cases ph) auto

lemma advance_remaining:
  "remaining (snd (advance L cfg bearer handler now s ph)) \<le> remaining ph - 1"
  by (cases ph) (auto split: advance_splits)

text \<open>
  The steps of one request when anything may happen to the shared state, the clock and the
  parameters between two of them.
\<close>

fun run_request ::
  "golib \<Rightarrow> Config \<Rightarrow> (bearer_check \<times> mcp_handler \<times> int \<times> server) list \<Rightarrow> phase \<Rightarrow> phase" where
  "run_request L cfg [] ph = ph"
| "run_request L cfg ((bearer, handler, now, s) # rest) ph =
     run_request L cfg rest (snd (advance L cfg bearer handler now s ph))"

lemma run_request_remaining: "remaining (run_request L cfg envs ph) \<le> remaining ph - length envs"
proof (induction L cfg envs ph rule: run_request.induct)
  case (2 L cfg bearer handler now s rest ph)
  with advance_remaining [of L cfg bearer handler now s ph] show ?case
    by (simp del: advance.simps)
qed simp

section \<open>An example run\<close>

lemma example_guards:
  "outer_guards L default_config (key_request [''k'']) response = Forward (key_request [''k'']) response"
  by (simp add: outer_guards_def default_config_def stream_config_def crossOriginHandler_def
      crossOriginAllowed_def requireExactOrigin_def key_request_def Get_def Values_def no_header_def)

definition example_request :: Request where
  "example_request = del_request_header ''X-Forwarded-For'' (key_request [''k''])"

lemma example_inner:
  "inner_guards L default_config bearer (key_request [''k'']) response =
     Forward example_request (set_header ''Cache-Control'' ''no-store'' response)"
  using key_request_host [of L "[''k'']"]
  by (simp add: inner_guards_def protectMCP_def forward_client_ip_def api_key_error_def Values_def
      go_eval key_request_def default_config_def stream_config_def example_request_def)

lemma example_principal: "requestPrincipal example_request = ''api-key:'' @ EncodeToString (Sum256 ''k'')"
  by (simp add: requestPrincipal_def example_request_def key_request_def Get_def Values_def
      del_request_header_def DelHeader_def)

lemma first_rate_step: "0 < n \<Longrightarrow> snd (rate_step (limitRatePerPrincipal n) who now) = Admitted"
  by (simp add: rate_step_def limitRatePerPrincipal_def Let_def maxTrackedRatePrincipals_def)

text \<open>One request alone.\<close>

definition solo :: "phase \<Rightarrow> requests" where
  "solo ph = (\<lambda>_. None)(0 := Some ph)"

lemma solo_advance:
  assumes "reachable L cfg (s, solo ph)" "\<forall>r. ph \<noteq> Done r"
    "advance L cfg bearer handler now s ph = (s', ph')"
  shows "reachable L cfg (s', solo ph')"
proof -
  have "step L cfg (s, solo ph) (s', (solo ph)(0 := Some ph'))"
    using assms(2,3) by (intro step.progress) (simp_all add: solo_def)
  with assms(1) show ?thesis by (simp add: reachable.next_step solo_def)
qed

lemma example_path:
  "\<exists>s1 s2 s3 s4 response response'.
     begin_request [] (key_request [''k'']) (new_server default_config) = (s1, Arrived (key_request [''k'']) response) \<and>
     advance L default_config bearer handler now s1 (Arrived (key_request [''k'']) response) =
       (s2, HoldsSlot (key_request [''k'']) response) \<and>
     advance L default_config bearer handler now s2 (HoldsSlot (key_request [''k'']) response) =
       (s2, Guarded example_request response') \<and>
     advance L default_config bearer handler now s2 (Guarded example_request response') =
       (s3, PassedRate example_request response') \<and>
     advance L default_config bearer handler now s3 (PassedRate example_request response') =
       (s4, Running (requestPrincipal example_request) example_request response')"
proof -
  let ?s0 = "new_server default_config" and ?who = "requestPrincipal example_request"
  obtain s1 response where s1: "begin_request [] (key_request [''k'']) ?s0 = (s1, Arrived (key_request [''k'']) response)"
    and s1_state: "semaphore s1 = 0" "inflight s1 = Mapping.empty" "limiter s1 = limiter ?s0"
    by (simp add: begin_request_def new_server_def)
  have cap: "maxConcurrent default_config = 8" "perPrincipal default_config = 2"
    "limiter ?s0 = Some (limitRatePerPrincipal 120)"
    by (simp_all add: maxConcurrent_def perPrincipal_def new_server_def default_config_def stream_config_def)
  have who: "?who \<noteq> []" by (simp add: example_principal)
  define s2 where "s2 = s1\<lparr>semaphore := 1\<rparr>"
  define response' where "response' = set_header ''Cache-Control'' ''no-store'' response"
  obtain lim where lim: "rate_step (limitRatePerPrincipal 120) ?who now = (lim, Admitted)"
    using first_rate_step [of 120 ?who now] by (metis prod.collapse zero_less_numeral)
  define s3 where "s3 = s2\<lparr>limiter := Some lim\<rparr>"
  have "advance L default_config bearer handler now s1 (Arrived (key_request [''k'']) response) =
      (s2, HoldsSlot (key_request [''k'']) response)"
    by (simp add: example_guards limitConcurrent_def sem_send_def cap s1_state s2_def)
  moreover have "advance L default_config bearer handler now s2 (HoldsSlot (key_request [''k'']) response) =
      (s2, Guarded example_request response')"
    by (simp add: example_inner response'_def)
  moreover have "advance L default_config bearer handler now s2 (Guarded example_request response') =
      (s3, PassedRate example_request response')"
    using who lim by (simp add: rateHandler_def s2_def s3_def s1_state cap Let_def)
  moreover have "\<exists>s4. advance L default_config bearer handler now s3 (PassedRate example_request response') =
      (s4, Running ?who example_request response')"
    using who by (simp add: limitConcurrentPerPrincipal_def inflight_enter_def s3_def s2_def s1_state cap Let_def)
  ultimately show ?thesis using s1 by blast
qed

lemma example_running:
  "\<exists>s response. reachable L default_config
     (s, solo (Running (requestPrincipal example_request) example_request response))"
proof -
  obtain s1 s2 s3 s4 response response' where
    path: "begin_request [] (key_request [''k'']) (new_server default_config) = (s1, Arrived (key_request [''k'']) response)"
      "advance L default_config (\<lambda>_. Inl empty_response) (\<lambda>_ r. (r, [])) 0 s1 (Arrived (key_request [''k'']) response) =
        (s2, HoldsSlot (key_request [''k'']) response)"
      "advance L default_config (\<lambda>_. Inl empty_response) (\<lambda>_ r. (r, [])) 0 s2 (HoldsSlot (key_request [''k'']) response) =
        (s2, Guarded example_request response')"
      "advance L default_config (\<lambda>_. Inl empty_response) (\<lambda>_ r. (r, [])) 0 s2 (Guarded example_request response') =
        (s3, PassedRate example_request response')"
      "advance L default_config (\<lambda>_. Inl empty_response) (\<lambda>_ r. (r, [])) 0 s3 (PassedRate example_request response') =
        (s4, Running (requestPrincipal example_request) example_request response')"
    using example_path by blast
  have "reachable L default_config (s1, solo (Arrived (key_request [''k'']) response))"
    unfolding solo_def
    using path(1) by (intro reachable.next_step [OF reachable.start] step.arrive) (simp_all add: key_request_def)
  from solo_advance [OF this _ path(2)] have "reachable L default_config (s2, solo (HoldsSlot (key_request [''k'']) response))"
    by simp
  from solo_advance [OF this _ path(3)] have "reachable L default_config (s2, solo (Guarded example_request response'))"
    by simp
  from solo_advance [OF this _ path(4)] have "reachable L default_config (s3, solo (PassedRate example_request response'))"
    by simp
  from solo_advance [OF this _ path(5)] show ?thesis by auto
qed

lemma example_done: "\<exists>s r. reachable L default_config (s, solo (Done r))"
proof -
  let ?who = "requestPrincipal example_request" and ?handler = "\<lambda>_ _. (empty_response, [(200, 5)])"
  obtain s response where r: "reachable L default_config (s, solo (Running ?who example_request response))"
    using example_running by blast
  obtain s1 where "advance L default_config (\<lambda>_. Inl empty_response) ?handler 0 s
      (Running ?who example_request response) = (s1, Leaving empty_response)" by simp
  from solo_advance [OF r _ this] have "reachable L default_config (s1, solo (Leaving empty_response))" by simp
  from solo_advance [OF this] obtain s2 where "reachable L default_config (s2, solo (Finished empty_response))"
    by fastforce
  from solo_advance [OF this] show ?thesis by fastforce
qed

section \<open>Properties\<close>

lemma slots_held_Some: "slots_held ps i = Some u \<longleftrightarrow> (\<exists>ph. ps i = Some ph \<and> slot_of ph = Some u)"
  by (simp add: slots_held_def bind_eq_Some_conv)

lemma principals_running_Some:
  "principals_running ps i = Some who \<longleftrightarrow> (\<exists>request response. ps i = Some (Running who request response))"
proof -
  have "principal_of ph = Some who \<longleftrightarrow> (\<exists>request response. ph = Running who request response)" for ph
    by (cases ph) auto
  then show ?thesis by (auto simp: principals_running_def bind_eq_Some_conv)
qed

lemma running_bounded:
  "server_inv cfg (s, ps) \<Longrightarrow>
     card {i. \<exists>request response. ps i = Some (Running who request response)} \<le> nat (perPrincipal cfg)"
proof -
  assume "server_inv cfg (s, ps)"
  then have "inflight.accounted (perPrincipal cfg) (inflight s) (principals_running ps)"
    by (simp add: server_inv_def)
  then have "card {i. principals_running ps i = Some who} \<le> nat (perPrincipal cfg)"
    by (simp add: inflight.accounted_def)
  then show ?thesis by (simp only: principals_running_Some)
qed

text \<open>C3: the capacity bounds hold in every interleaving. However requests arrive, are refused, run
  and finish, at most \<open>maxConcurrent\<close> of them are past the semaphore and at most \<open>perPrincipal\<close> of one
  principal are in the MCP handler; and the semaphore, the per-principal map and the in-flight gauge
  always show exactly how many there are.\<close>

theorem server_capacity:
  assumes "reachable L cfg (s, ps)"
  shows "card {i. \<exists>ph. ps i = Some ph \<and> slot_of ph = Some ()} \<le> nat (maxConcurrent cfg) \<and>
    semaphore s = card {i. \<exists>ph. ps i = Some ph \<and> slot_of ph = Some ()} \<and>
    (\<forall>who. card {i. \<exists>request response. ps i = Some (Running who request response)} \<le> nat (perPrincipal cfg) \<and>
       inflight_count (inflight s) who = int (card {i. \<exists>request response. ps i = Some (Running who request response)})) \<and>
    httpInflight (stats s) = of_nat (card {i. \<exists>ph. ps i = Some ph \<and> (\<forall>r. ph \<noteq> Done r)})"
proof -
  have inv: "server_inv cfg (s, ps)" using assms by (rule server_inv_reachable)
  then have a: "sem.accounted (maxConcurrent cfg) (semaphore s) (slots_held ps)"
    and b: "inflight.accounted (perPrincipal cfg) (inflight s) (principals_running ps)"
    and c: "httpInflight (stats s) = of_nat (card (live_requests ps))"
    by (simp_all add: server_inv_def)
  have nn: "0 \<le> inflight_count (inflight s) who" for who
    using b inflight_nonneg by (simp add: inflight.accounted_def)
  have "live ph \<longleftrightarrow> (\<forall>r. ph \<noteq> Done r)" for ph by (cases ph) auto
  with c have "httpInflight (stats s) = of_nat (card {i. \<exists>ph. ps i = Some ph \<and> (\<forall>r. ph \<noteq> Done r)})"
    by (simp add: live_requests_def)
  moreover have "semaphore s = card {i. slots_held ps i = Some ()}"
    "card {i. slots_held ps i = Some ()} \<le> nat (maxConcurrent cfg)"
    using a by (simp_all add: sem.accounted_def)
  moreover have "inflight_count (inflight s) who = int (card {i. principals_running ps i = Some who})"
    "card {i. principals_running ps i = Some who} \<le> nat (perPrincipal cfg)" for who
    using b nn [of who] by (auto simp: inflight.accounted_def) (metis int_nat_eq nn)
  ultimately show ?thesis
    by (simp only: slots_held_Some principals_running_Some) simp
qed

theorem server_capacity_witness:
  "\<exists>s response. reachable example_lib default_config
       (s, solo (Running (requestPrincipal example_request) example_request response)) \<and>
     semaphore s = 1 \<and> inflight_count (inflight s) (requestPrincipal example_request) = 1"
proof -
  let ?who = "requestPrincipal example_request"
  obtain s response where r: "reachable example_lib default_config (s, solo (Running ?who example_request response))"
    using example_running by blast
  let ?ps = "solo (Running ?who example_request response)"
  have "{i. \<exists>ph. ?ps i = Some ph \<and> slot_of ph = Some ()} = {0}"
    "{i. \<exists>request response. ?ps i = Some (Running ?who request response)} = {0}"
    by (auto simp: solo_def split: if_splits)
  with server_capacity [OF r] have "semaphore s = 1 \<and> inflight_count (inflight s) ?who = 1" by simp
  with r show ?thesis by blast
qed

text \<open>C21: nothing leaks. Once every request that ever arrived is done, the semaphore is empty, the
  per-principal map has no entry left and the gauge reads zero, whatever happened before.\<close>

theorem server_quiescent:
  assumes "reachable L cfg (s, ps)" and "\<forall>i ph. ps i = Some ph \<longrightarrow> (\<exists>r. ph = Done r)"
  shows "semaphore s = 0 \<and> Mapping.keys (inflight s) = {} \<and> httpInflight (stats s) = 0"
proof -
  have inv: "server_inv cfg (s, ps)" using assms(1) by (rule server_inv_reachable)
  have none: "slots_held ps i = None" "principals_running ps i = None" "i \<notin> live_requests ps" for i
    using assms(2) by (cases "ps i"; force simp: slots_held_def principals_running_def live_requests_def)+
  then have "live_requests ps = {}" by blast
  moreover have "nat (inflight_count (inflight s) who) = 0" for who
    using inv none by (intro inflight.accounted_idle [where who = "principals_running ps"]) (auto simp: server_inv_def)
  then have "who \<notin> Mapping.keys (inflight s)" for who
    using inv inflight_keys [of "inflight s" who] by (auto simp: server_inv_def inflight.accounted_def)
  moreover have "semaphore s = 0"
    using inv none sem.accounted_idle [where s = "semaphore s" and who = "slots_held ps"]
    by (auto simp: server_inv_def)
  ultimately show ?thesis using inv by (auto simp: server_inv_def)
qed

theorem server_quiescent_witness:
  "\<exists>s r. reachable example_lib default_config (s, solo (Done r)) \<and> semaphore s = 0 \<and> httpInflight (stats s) = 0"
proof -
  obtain s r where r: "reachable example_lib default_config (s, solo (Done r))" using example_done by blast
  have "\<forall>i ph. solo (Done r) i = Some ph \<longrightarrow> (\<exists>r. ph = Done r)"
    by (auto simp: solo_def split: if_splits)
  from server_quiescent [OF r this] r show ?thesis by blast
qed

text \<open>C9: what has been established about a request when the MCP handler runs it, in every
  interleaving: the host is allowed, its origin (if it names one) is the server's own or a configured
  one, its principal is the one the limits were charged to, and the credential used upstream is the
  caller's single key in API-key mode, and the server's with a verified subject in OAuth mode.\<close>

theorem handler_guarded:
  assumes "reachable L cfg (s, ps)" and "ps i = Some (Running who request response)"
  shows "allowedRequestHost L (Request.Host request) (AllowedHosts cfg) \<and> origin_ok L cfg request \<and>
    who = requestPrincipal request \<and>
    (if AuthMode cfg = ''oauth''
     then Values (ReqHeader request) ''X-API-Key'' = [] \<and> upstream_key cfg request = SynthientAPIKey cfg \<and>
       (\<exists>token. Token request = Some token \<and> UserID token \<noteq> [] \<and> who = ''oauth:'' @ UserID token)
     else \<exists>k. Values (ReqHeader request) ''X-API-Key'' = [k] \<and> k \<noteq> [] \<and> upstream_key cfg request = k \<and>
       who = ''api-key:'' @ EncodeToString (Sum256 k)) \<and>
    (ForwardClientIP cfg \<longrightarrow> canonicalIP (upstream_forwarded_for request) = Inr (upstream_forwarded_for request)) \<and>
    (\<not> ForwardClientIP cfg \<longrightarrow> upstream_forwarded_for request = [])"
proof -
  from reachable_phase_ok [OF assms] obtain request1 response1 token
    where who: "who = requestPrincipal request" "who \<noteq> []" and origin: "origin_ok L cfg request1"
      and mode: "AuthMode cfg = ''oauth'' \<longleftrightarrow> token \<noteq> None"
      and fwd: "protectMCP L cfg (request1\<lparr>Token := token\<rparr>) response1 = Forward request response"
    by (auto simp: admitted_by_guards_def)
  note admits = protectMCP_admits [OF fwd]
  have same: "origin_ok L cfg request = origin_ok L cfg request1"
    using admits by (simp add: origin_ok_def requestOrigin_def)
  show ?thesis
  proof (cases "AuthMode cfg = ''oauth''")
    case True
    with admits have "Values (ReqHeader request) ''X-API-Key'' = []" by simp
    with True who mode admits origin same show ?thesis
      by (auto simp: requestPrincipal_def Get_def upstream_key_def upstream_forwarded_for_def Let_def
          split: if_splits option.splits)
  next
    case False
    with admits obtain k where k: "Values (ReqHeader request) ''X-API-Key'' = [k]" "k \<noteq> []" by auto
    have "Token request = None" using admits mode False by simp
    with False k who admits origin same show ?thesis
      by (auto simp: requestPrincipal_def Get_def upstream_key_def upstream_forwarded_for_def Let_def
          split: if_splits)
  qed
qed

theorem handler_guarded_witness:
  "\<exists>s response. reachable example_lib default_config
       (s, solo (Running (requestPrincipal example_request) example_request response)) \<and>
     requestPrincipal example_request = ''api-key:'' @ EncodeToString (Sum256 ''k'') \<and>
     upstream_key default_config example_request = ''k''"
proof -
  let ?who = "requestPrincipal example_request"
  obtain s response where r: "reachable example_lib default_config (s, solo (Running ?who example_request response))"
    using example_running by blast
  have mode: "(AuthMode default_config = ''oauth'') = False" by (simp add: default_config_def stream_config_def)
  have "solo (Running ?who example_request response) 0 = Some (Running ?who example_request response)"
    by (simp add: solo_def)
  from handler_guarded [OF r this, unfolded mode if_False]
  obtain k where "Values (ReqHeader example_request) ''X-API-Key'' = [k]" "upstream_key default_config example_request = k"
    by blast
  moreover have "Values (ReqHeader example_request) ''X-API-Key'' = [''k'']"
    by (simp add: example_request_def header_simps) (simp add: key_request_def Values_def)
  ultimately have "upstream_key default_config example_request = ''k''" by simp
  with r example_principal show ?thesis by blast
qed



end
