(* ===== verification/Go_Path.thy ===== *)
theory Go_Path
  imports Go_Url Go_Strconv
begin

text \<open>
  What the program uses of \<open>net/url\<close> and \<open>path\<close> to build a request URL: escaping and unescaping of
  paths and query values, \<open>EscapedPath\<close>, \<open>setPath\<close>, \<open>path.Clean\<close> of a rooted path, \<open>JoinPath\<close>,
  \<open>Values.Encode\<close> and \<open>String\<close>; and that a path built from escaped segments reads back as those
  segments.
\<close>

section \<open>Escaping\<close>

datatype escape_mode = PathMode | SegmentMode | QueryMode | FragmentMode

definition unreserved :: "char \<Rightarrow> bool" where
  "unreserved c \<longleftrightarrow> is_lower c \<or> is_upper c \<or> is_digit c \<or> c \<in> set ''-_.~''"

definition shouldEscape :: "escape_mode \<Rightarrow> char \<Rightarrow> bool" where
  "shouldEscape mode c =
     (if unreserved c then False
      else if c \<in> set ''$&+,/:;=?@''
      then (case mode of
              PathMode \<Rightarrow> c = CHR ''?''
            | SegmentMode \<Rightarrow> c \<in> set ''/;,?''
            | QueryMode \<Rightarrow> True
            | FragmentMode \<Rightarrow> False)
      else if mode = FragmentMode \<and> c \<in> set ''!()*'' then False
      else True)"

definition escape_byte :: "escape_mode \<Rightarrow> char \<Rightarrow> string" where
  "escape_byte mode c =
     (if mode = QueryMode \<and> c = CHR '' '' then ''+''
      else if shouldEscape mode c then [CHR ''%'', hex_upper (byte c div 16), hex_upper (byte c mod 16)]
      else [c])"

definition escape :: "escape_mode \<Rightarrow> string \<Rightarrow> string" where
  "escape mode s = concat (map (escape_byte mode) s)"

definition PathEscape :: "string \<Rightarrow> string" where
  "PathEscape s = escape SegmentMode s"

text \<open>\<open>unescape\<close> in path mode: a percent sign must start an escape.\<close>

fun unescape :: "string \<Rightarrow> string option" where
  "unescape [] = Some []"
| "unescape (c # cs) =
     (if c = CHR ''%''
      then (case cs of
              h # l # rest \<Rightarrow>
                (case (digit_val h, digit_val l) of
                   (Some a, Some b) \<Rightarrow> map_option ((#) (char_of (16 * a + b))) (unescape rest)
                 | _ \<Rightarrow> None)
            | _ \<Rightarrow> None)
      else map_option ((#) c) (unescape cs))"

text \<open>\<open>validEncoded\<close> in path mode.\<close>

definition validEncoded :: "string \<Rightarrow> bool" where
  "validEncoded s =
     list_all (\<lambda>c. c \<in> set ''!$&()*+,;=:@[]%'' \<or> byte c = 39 \<or> \<not> shouldEscape PathMode c) s"

definition EscapedPath :: "URL \<Rightarrow> string" where
  "EscapedPath u =
     (if RawPath u \<noteq> [] \<and> validEncoded (RawPath u) \<and> unescape (RawPath u) = Some (Path u) then RawPath u
      else if Path u = ''*'' then ''*''
      else escape PathMode (Path u))"

text \<open>\<open>setPath\<close>: on an error the URL stays as it is.\<close>

definition setPath :: "URL \<Rightarrow> string \<Rightarrow> URL" where
  "setPath u p =
     (case unescape p of
        None \<Rightarrow> u
      | Some path \<Rightarrow> u\<lparr>Path := path, RawPath := (if escape PathMode path = p then [] else p)\<rparr>)"

section \<open>Joining\<close>

text \<open>\<open>path.Clean\<close> of a rooted path: empty and \<open>.\<close> elements go, \<open>..\<close> takes the element before it away.\<close>

definition clean_element :: "string list \<Rightarrow> string \<Rightarrow> string list" where
  "clean_element out e =
     (if e = [] \<or> e = ''.'' then out else if e = ''..'' then butlast out else out @ [e])"

definition Clean :: "string \<Rightarrow> string" where
  "Clean p = CHR ''/'' # JoinByte CHR ''/'' (foldl clean_element [] (SplitByte CHR ''/'' (tl p)))"

text \<open>\<open>u.JoinPath(elem)\<close>. A URL without a rooted path keeps a relative one.\<close>

definition JoinPath :: "URL \<Rightarrow> string \<Rightarrow> URL" where
  "JoinPath u elem =
     (let first = EscapedPath u;
          p = (if HasPrefix first ''/'' then Clean (first @ CHR ''/'' # elem)
               else tl (Clean (CHR ''/'' # first @ CHR ''/'' # elem)));
          p = (if HasSuffix elem ''/'' \<and> \<not> HasSuffix p ''/'' then p @ ''/'' else p)
      in setPath u p)"

section \<open>Text\<close>

text \<open>\<open>Values.Encode\<close> of single-valued parameters given in the order of their keys.\<close>

fun Encode :: "(string \<times> string) list \<Rightarrow> string" where
  "Encode [] = []"
| "Encode [(k, v)] = escape QueryMode k @ CHR ''='' # escape QueryMode v"
| "Encode ((k, v) # kv # kvs) =
     escape QueryMode k @ CHR ''='' # escape QueryMode v @ CHR ''&'' # Encode (kv # kvs)"

text \<open>
  \<open>u.String()\<close> for a URL with a scheme and a host. \<open>User\<close> is its printed form; the fragment is
  escaped in the default way.
\<close>

definition URL_String :: "URL \<Rightarrow> string" where
  "URL_String u =
     Scheme u @ CHR '':'' #
     (if Opaque u \<noteq> [] then Opaque u
      else ''//'' @ (case User u of None \<Rightarrow> [] | Some user \<Rightarrow> user @ ''@'') @ escape_host (HostPort u) @
           (let p = EscapedPath u in if p \<noteq> [] \<and> \<not> HasPrefix p ''/'' then CHR ''/'' # p else p)) @
     (if RawQuery u \<noteq> [] then CHR ''?'' # RawQuery u else []) @
     (if Fragment u \<noteq> [] then CHR ''#'' # escape FragmentMode (Fragment u) else [])"

section \<open>Escaped text reads back\<close>

lemma digit_val_hex_upper: "d < 16 \<Longrightarrow> digit_val (hex_upper d) = Some d"
  by (auto simp: digit_val_def hex_upper_def is_digit_def)

lemma hex_pair: "char_of (16 * (byte c div 16) + byte c mod 16) = c"
  by (simp add: byte_def)

lemma nibbles [simp]: "byte c div 16 < 16" "byte c mod 16 < 16"
  using less_mult_imp_div_less [of "byte c" 16 16] byte_less [of c] by simp_all

lemma shouldEscape_percent: "mode \<noteq> FragmentMode \<Longrightarrow> shouldEscape mode CHR ''%''"
  by (cases mode) (simp_all add: shouldEscape_def unreserved_def is_lower_def is_upper_def is_digit_def byte_def)

lemma unescape_escape_byte:
  assumes "mode = PathMode \<or> mode = SegmentMode"
  shows "unescape (escape_byte mode c @ s) = map_option ((#) c) (unescape s)"
proof (cases "shouldEscape mode c")
  case True
  with assms show ?thesis
    using hex_pair [of c] by (auto simp: escape_byte_def digit_val_hex_upper)
next
  case False
  with assms shouldEscape_percent [of mode] have "c \<noteq> CHR ''%''" by auto
  with False assms show ?thesis by (auto simp: escape_byte_def)
qed

lemma unescape_escape:
  "mode = PathMode \<or> mode = SegmentMode \<Longrightarrow> unescape (escape mode s) = Some s"
  by (induction s) (simp_all add: escape_def unescape_escape_byte)

lemma unescape_PathEscape [simp]: "unescape (PathEscape s) = Some s"
  by (simp add: PathEscape_def unescape_escape)

lemma PathEscape_inj: "PathEscape s = PathEscape t \<longleftrightarrow> s = t"
  by (metis option.inject unescape_PathEscape)

lemma unescape_append:
  "unescape a = Some x \<Longrightarrow>
     unescape (a @ b) = (case unescape b of None \<Rightarrow> None | Some y \<Rightarrow> Some (x @ y))"
proof (induction a arbitrary: x rule: unescape.induct)
  case (2 c cs)
  then show ?case
    by (cases "c = CHR ''%''") (auto split: list.splits option.splits)
qed (simp split: option.split)

section \<open>Paths made of elements\<close>

definition rooted :: "string list \<Rightarrow> string" where
  "rooted elements = concat (map ((#) CHR ''/'') elements)"

definition plain :: "string \<Rightarrow> bool" where
  "plain e \<longleftrightarrow> e \<noteq> [] \<and> e \<noteq> ''.'' \<and> e \<noteq> ''..'' \<and> CHR ''/'' \<notin> set e"

lemma rooted_simps [simp]:
  "rooted [] = []" "rooted (e # es) = CHR ''/'' # e @ rooted es" "rooted (xs @ ys) = rooted xs @ rooted ys"
  by (simp_all add: rooted_def)

lemma rooted_JoinByte: "es \<noteq> [] \<Longrightarrow> rooted es = CHR ''/'' # JoinByte CHR ''/'' es"
proof (induction es)
  case (Cons e es)
  then show ?case by (cases es) auto
qed simp

lemma foldl_clean_plain: "list_all plain es \<Longrightarrow> foldl clean_element out es = out @ es"
  by (induction es arbitrary: out) (auto simp: clean_element_def plain_def)

lemma Clean_rooted: "list_all plain es \<Longrightarrow> es \<noteq> [] \<Longrightarrow> Clean (rooted es) = rooted es"
proof -
  assume es: "list_all plain es" "es \<noteq> []"
  then have "\<forall>e\<in>set es. CHR ''/'' \<notin> set e" by (auto simp: list_all_iff plain_def)
  then have "SplitByte CHR ''/'' (tl (rooted es)) = es"
    using es(2) by (simp add: rooted_JoinByte SplitByte_JoinByte)
  with es show ?thesis by (simp add: Clean_def foldl_clean_plain rooted_JoinByte)
qed

lemma plain_PathEscape: "plain (PathEscape s) \<longleftrightarrow> s \<noteq> [] \<and> s \<noteq> ''.'' \<and> s \<noteq> ''..''"
proof -
  have fixed: "PathEscape [] = []" "PathEscape ''.'' = ''.''" "PathEscape ''..'' = ''..''" by code_simp+
  have "hex_upper d \<noteq> CHR ''/''" if "d < 16" for d
  proof
    assume "hex_upper d = CHR ''/''"
    then have "byte (hex_upper d) = 47" by (simp add: byte_def)
    with that show False by (auto simp: hex_upper_def split: if_splits)
  qed
  moreover have "shouldEscape SegmentMode CHR ''/''" by code_simp
  ultimately have "CHR ''/'' \<notin> set (escape_byte SegmentMode c)" for c
    by (auto simp: escape_byte_def) (metis nibbles(1), metis nibbles(2))
  then have "CHR ''/'' \<notin> set (PathEscape s)"
    by (simp add: PathEscape_def escape_def)
  then show ?thesis unfolding plain_def by (metis fixed PathEscape_inj)
qed

lemma validEncoded_append [simp]: "validEncoded (a @ b) \<longleftrightarrow> validEncoded a \<and> validEncoded b"
  by (simp add: validEncoded_def)

lemma hex_upper_unreserved: "d < 16 \<Longrightarrow> unreserved (hex_upper d)"
  by (auto simp: unreserved_def hex_upper_def is_digit_def is_upper_def)

lemma validEncoded_escape:
  assumes "mode = PathMode \<or> mode = SegmentMode"
  shows "validEncoded (escape mode s)"
proof -
  have "validEncoded (escape_byte mode c)" for c
  proof (cases "shouldEscape mode c")
    case True
    have "unreserved (hex_upper (byte c div 16))" "unreserved (hex_upper (byte c mod 16))"
      by (simp_all add: hex_upper_unreserved)
    with True assms show ?thesis by (auto simp: escape_byte_def validEncoded_def shouldEscape_def)
  next
    case False
    with assms have "\<not> shouldEscape PathMode c" by (auto simp: shouldEscape_def split: if_splits)
    with False assms show ?thesis by (auto simp: escape_byte_def validEncoded_def)
  qed
  then show ?thesis by (induction s) (simp_all add: escape_def validEncoded_def)
qed

text \<open>Reading a path that was set gives it back.\<close>

lemma EscapedPath_setPath:
  assumes "validEncoded p" "unescape p = Some path" "path \<noteq> ''*''"
  shows "EscapedPath (setPath u p) = p"
  using assms by (auto simp: EscapedPath_def setPath_def escape_def)

lemma JoinPath_rooted:
  assumes "EscapedPath u = rooted es" "es \<noteq> []" "list_all plain es" "validEncoded (rooted es)"
    "unescape (rooted es) \<noteq> None" "plain (PathEscape s)"
  shows "EscapedPath (JoinPath u (PathEscape s)) = rooted (es @ [PathEscape s])"
    "validEncoded (rooted (es @ [PathEscape s]))" "unescape (rooted (es @ [PathEscape s])) \<noteq> None"
proof -
  obtain x where x: "unescape (rooted es) = Some x" using assms(5) by auto
  have "unescape (CHR ''/'' # PathEscape s) = Some (CHR ''/'' # s)" by simp
  with x have u: "unescape (rooted (es @ [PathEscape s])) = Some (x @ CHR ''/'' # s)"
    by (simp add: unescape_append)
  then show "unescape (rooted (es @ [PathEscape s])) \<noteq> None" by simp
  have "\<not> shouldEscape PathMode CHR ''/''" by code_simp
  then show v: "validEncoded (rooted (es @ [PathEscape s]))"
    using assms(4) validEncoded_escape [of SegmentMode s]
    by (simp add: PathEscape_def) (simp add: validEncoded_def)
  have "x @ CHR ''/'' # s \<noteq> ''*''" by (cases x) auto
  then have e: "EscapedPath (setPath u (rooted (es @ [PathEscape s]))) = rooted (es @ [PathEscape s])"
    using EscapedPath_setPath v u by blast
  have "HasPrefix (rooted es) ''/''" using assms(2) by (cases es) (simp_all add: HasPrefix_def)
  moreover have "\<not> HasSuffix (PathEscape s) ''/''" using assms(6) by (auto simp: HasSuffix_iff plain_def)
  moreover have "Clean (rooted (es @ [PathEscape s])) = rooted (es @ [PathEscape s])"
    using assms(3,6) by (intro Clean_rooted) auto
  ultimately show "EscapedPath (JoinPath u (PathEscape s)) = rooted (es @ [PathEscape s])"
    using e assms(1) by (simp add: JoinPath_def Let_def)
qed

lemma SplitByte_rooted:
  "list_all plain es \<Longrightarrow> es \<noteq> [] \<Longrightarrow> SplitByte CHR ''/'' (rooted es) = [] # es"
  by (simp add: rooted_JoinByte) (rule SplitByte_JoinByte; auto simp: list_all_iff plain_def)

lemma JoinPath_fields [simp]:
  "Scheme (JoinPath u e) = Scheme u" "HostPort (JoinPath u e) = HostPort u" "Opaque (JoinPath u e) = Opaque u"
  "User (JoinPath u e) = User u" "Fragment (JoinPath u e) = Fragment u" "RawQuery (JoinPath u e) = RawQuery u"
  by (simp_all add: JoinPath_def setPath_def Let_def split: option.splits)

section \<open>Paths that are not rooted\<close>

lemma PathEscape_no_slash: "CHR ''/'' \<notin> set (PathEscape s)"
proof (cases "plain (PathEscape s)")
  case False
  then have "s = [] \<or> s = ''.'' \<or> s = ''..''" by (simp add: plain_PathEscape)
  moreover have "PathEscape [] = []" "PathEscape ''.'' = ''.''" "PathEscape ''..'' = ''..''" by code_simp+
  ultimately show ?thesis by auto
qed (simp add: plain_def)

lemma validEncoded_EscapedPath: "validEncoded (EscapedPath u)"
proof -
  have "validEncoded ''*''" by code_simp
  then show ?thesis using validEncoded_escape [of PathMode "Path u"] by (simp add: EscapedPath_def)
qed

lemma validEncoded_subset: "set p \<subseteq> set q \<Longrightarrow> validEncoded q \<Longrightarrow> validEncoded p"
  unfolding validEncoded_def list_all_iff by blast

lemma EscapedPath_setPath_cases:
  "validEncoded p \<Longrightarrow> EscapedPath (setPath u p) \<in> {p, ''*'', EscapedPath u}"
  by (auto simp: EscapedPath_def setPath_def escape_def split: option.splits)

lemma foldl_clean_set:
  "set (foldl clean_element out es) \<subseteq> set out \<union> set es \<and>
    ([] \<notin> set out \<longrightarrow> [] \<notin> set (foldl clean_element out es))"
proof (induction es arbitrary: out)
  case (Cons e es)
  have "set (clean_element out e) \<subseteq> set out \<union> {e}" "[] \<notin> set out \<longrightarrow> [] \<notin> set (clean_element out e)"
    by (auto simp: clean_element_def dest: in_set_butlastD)
  with Cons.IH [of "clean_element out e"] show ?case by auto
qed simp

lemma JoinByte_set: "set (JoinByte c ws) \<subseteq> insert c (\<Union> (set (map set ws)))"
  by (induction c ws rule: JoinByte.induct) auto

lemma JoinByte_not_sep: "\<forall>w\<in>set ws. w \<noteq> [] \<and> c \<notin> set w \<Longrightarrow> \<not> HasPrefix (JoinByte c ws) [c]"
  by (induction c ws rule: JoinByte.induct) (auto simp: HasPrefix_iff neq_Nil_conv)

end
