(* ===== verification/Go_Utf8.thy ===== *)
theory Go_Utf8
  imports Go_Strings "HOL-Library.Sublist"
begin

text \<open>
  Go's view of a string as runes: \<open>for _, r := range s\<close>, \<open>[]rune(s)\<close>, \<open>string(runes)\<close> and
  \<open>strings.Map\<close>. An invalid byte decodes to U+FFFD with width one. Also \<open>strings.ReplaceAll\<close>.
\<close>

section \<open>Decoding and encoding\<close>

definition RuneError :: nat where "RuneError = 0xFFFD"

definition cont :: "nat \<Rightarrow> nat \<Rightarrow> string \<Rightarrow> nat \<Rightarrow> bool" where
  "cont lo hi s i \<longleftrightarrow> i < length s \<and> lo \<le> byte (s ! i) \<and> byte (s ! i) \<le> hi"

definition low6 :: "string \<Rightarrow> nat \<Rightarrow> nat" where
  "low6 s i = byte (s ! i) mod 64"

text \<open>\<open>utf8.DecodeRuneInString\<close> of a non-empty string: the rune and its width.\<close>

definition decode_rune :: "string \<Rightarrow> nat \<times> nat" where
  "decode_rune s =
     (let b = byte (s ! 0);
          lo = (if b = 0xE0 then 0xA0 else if b = 0xF0 then 0x90 else 0x80);
          hi = (if b = 0xED then 0x9F else if b = 0xF4 then 0x8F else 0xBF)
      in if b < 0x80 then (b, 1)
         else if 0xC2 \<le> b \<and> b \<le> 0xDF \<and> cont 0x80 0xBF s 1
         then ((b mod 32) * 64 + low6 s 1, 2)
         else if 0xE0 \<le> b \<and> b \<le> 0xEF \<and> cont lo hi s 1 \<and> cont 0x80 0xBF s 2
         then ((b mod 16) * 4096 + low6 s 1 * 64 + low6 s 2, 3)
         else if 0xF0 \<le> b \<and> b \<le> 0xF4 \<and> cont lo hi s 1 \<and> cont 0x80 0xBF s 2 \<and> cont 0x80 0xBF s 3
         then ((b mod 8) * 262144 + low6 s 1 * 4096 + low6 s 2 * 64 + low6 s 3, 4)
         else (RuneError, 1))"

definition encode_rune :: "nat \<Rightarrow> string" where
  "encode_rune r =
     (let r = (if 0x10FFFF < r \<or> (0xD800 \<le> r \<and> r \<le> 0xDFFF) then RuneError else r)
      in map char_of
           (if r < 0x80 then [r]
            else if r < 0x800 then [0xC0 + r div 64, 0x80 + r mod 64]
            else if r < 0x10000 then [0xE0 + r div 4096, 0x80 + r div 64 mod 64, 0x80 + r mod 64]
            else [0xF0 + r div 262144, 0x80 + r div 4096 mod 64, 0x80 + r div 64 mod 64, 0x80 + r mod 64]))"

function runes :: "string \<Rightarrow> nat list" where
  "runes [] = []"
| "runes (c # cs) = (case decode_rune (c # cs) of (r, w) \<Rightarrow> r # runes (drop (w - 1) cs))"
  by pat_completeness auto
termination
  by (relation "measure length") auto

declare runes.simps [simp del]

definition string_of_runes :: "nat list \<Rightarrow> string" where
  "string_of_runes rs = concat (map encode_rune rs)"

text \<open>\<open>strings.Map\<close> for a mapping that drops no rune.\<close>

definition Map_runes :: "(nat \<Rightarrow> nat) \<Rightarrow> string \<Rightarrow> string" where
  "Map_runes f s = string_of_runes (map f (runes s))"

lemma length_encode_rune: "length (encode_rune r) \<le> 4"
  by (simp add: encode_rune_def Let_def)

lemma length_string_of_runes: "length (string_of_runes rs) \<le> 4 * length rs"
proof (induction rs)
  case (Cons r rs)
  then show ?case using length_encode_rune [of r] by (simp add: string_of_runes_def)
qed (simp add: string_of_runes_def)

lemma encode_rune_ascii: "r < 0x80 \<Longrightarrow> encode_rune r = [char_of r]"
  by (simp add: encode_rune_def Let_def)

lemma encode_rune_not_ascii: "0x80 \<le> r \<Longrightarrow> c \<in> set (encode_rune r) \<Longrightarrow> 0x80 \<le> byte c"
  by (auto simp: encode_rune_def Let_def RuneError_def split: if_splits)

lemma decode_rune_ascii: "byte c < 0x80 \<Longrightarrow> decode_rune (c # cs) = (byte c, 1)"
  by (simp add: decode_rune_def)

lemma mod_shift: "m dvd a \<Longrightarrow> a \<le> b \<Longrightarrow> b < a + m \<Longrightarrow> b mod m = b - (a :: nat)"
proof -
  assume "m dvd a" "a \<le> b" "b < a + m"
  then obtain k where "b = a + k" "k < m" by (auto simp: le_iff_add)
  with \<open>m dvd a\<close> show ?thesis by (simp add: mod_add_eq [symmetric])
qed

lemma lead_bits:
  "0xC2 \<le> b \<Longrightarrow> b \<le> 0xDF \<Longrightarrow> 2 \<le> b mod (32 :: nat)"
  "0xE1 \<le> b \<Longrightarrow> b \<le> 0xEF \<Longrightarrow> 1 \<le> b mod (16 :: nat)"
  "0xF1 \<le> b \<Longrightarrow> b \<le> 0xF4 \<Longrightarrow> 1 \<le> b mod (8 :: nat)"
  "0xA0 \<le> b \<Longrightarrow> b \<le> 0xBF \<Longrightarrow> 32 \<le> b mod (64 :: nat)"
  "0x90 \<le> b \<Longrightarrow> b \<le> 0xBF \<Longrightarrow> 16 \<le> b mod (64 :: nat)"
  using mod_shift [of 32 "0xC0" b] mod_shift [of 16 "0xE0" b] mod_shift [of 8 "0xF0" b] mod_shift [of 64 "0x80" b]
  by simp_all

lemma cont_lo: "cont lo hi s i \<Longrightarrow> 0x80 \<le> lo \<Longrightarrow> i < length s \<and> 0x80 \<le> byte (s ! i)"
  by (auto simp: cont_def)

lemma less_numeral_cases:
  "i < 1 \<longleftrightarrow> i = (0 :: nat)" "i < 2 \<longleftrightarrow> i = (0 :: nat) \<or> i = 1" "i < 3 \<longleftrightarrow> i = (0 :: nat) \<or> i = 1 \<or> i = 2"
  by linarith+

text \<open>A byte above 127 starts a rune above 127, and the bytes the rune takes are all above 127.\<close>

lemma decode_rune_not_ascii:
  assumes c: "0x80 \<le> byte c"
  shows "0x80 \<le> fst (decode_rune (c # cs)) \<and>
    (\<forall>i < snd (decode_rune (c # cs)) - 1. i < length cs \<and> 0x80 \<le> byte (cs ! i))"
proof -
  let ?s = "c # cs" and ?b = "byte c"
  let ?lo = "if ?b = 0xE0 then 0xA0 else if ?b = 0xF0 then 0x90 else 0x80 :: nat"
  let ?hi = "if ?b = 0xED then 0x9F else if ?b = 0xF4 then 0x8F else 0xBF :: nat"
  have rest: "decode_rune ?s = (RuneError, 1)"
    if "\<not> (0xC2 \<le> ?b \<and> ?b \<le> 0xDF \<and> cont 0x80 0xBF ?s 1)"
      "\<not> (0xE0 \<le> ?b \<and> ?b \<le> 0xEF \<and> cont ?lo ?hi ?s 1 \<and> cont 0x80 0xBF ?s 2)"
      "\<not> (0xF0 \<le> ?b \<and> ?b \<le> 0xF4 \<and> cont ?lo ?hi ?s 1 \<and> cont 0x80 0xBF ?s 2 \<and> cont 0x80 0xBF ?s 3)"
    using c that by (simp only: decode_rune_def Let_def nth_Cons_0) simp
  consider
    (two) "0xC2 \<le> ?b \<and> ?b \<le> 0xDF \<and> cont 0x80 0xBF ?s 1"
  | (three) "\<not> (0xC2 \<le> ?b \<and> ?b \<le> 0xDF \<and> cont 0x80 0xBF ?s 1)"
      "0xE0 \<le> ?b \<and> ?b \<le> 0xEF \<and> cont ?lo ?hi ?s 1 \<and> cont 0x80 0xBF ?s 2"
  | (four) "\<not> (0xC2 \<le> ?b \<and> ?b \<le> 0xDF \<and> cont 0x80 0xBF ?s 1)"
      "\<not> (0xE0 \<le> ?b \<and> ?b \<le> 0xEF \<and> cont ?lo ?hi ?s 1 \<and> cont 0x80 0xBF ?s 2)"
      "0xF0 \<le> ?b \<and> ?b \<le> 0xF4 \<and> cont ?lo ?hi ?s 1 \<and> cont 0x80 0xBF ?s 2 \<and> cont 0x80 0xBF ?s 3"
  | (bad) "decode_rune ?s = (RuneError, 1)"
    using rest by blast
  then show ?thesis
  proof cases
    case two
    then have "decode_rune ?s = ((?b mod 32) * 64 + low6 ?s 1, 2)" using c by (simp add: decode_rune_def)
    moreover have "2 \<le> ?b mod 32" using two lead_bits(1) by simp
    ultimately show ?thesis using two by (auto dest: cont_lo)
  next
    case three
    then have d: "decode_rune ?s = ((?b mod 16) * 4096 + low6 ?s 1 * 64 + low6 ?s 2, 3)"
      using c by (simp only: decode_rune_def Let_def nth_Cons_0) simp
    have "1 \<le> ?b mod 16 \<or> 32 \<le> low6 ?s 1"
    proof (cases "?b = 0xE0")
      case True
      with three show ?thesis using lead_bits(4) by (simp add: cont_def low6_def)
    next
      case False
      with three lead_bits(2) [of ?b] show ?thesis by simp
    qed
    moreover have "cont 0x80 0xBF ?s 2" "cont ?lo ?hi ?s 1" using three by blast+
    ultimately show ?thesis
      using d cont_lo [of ?lo ?hi ?s 1] cont_lo [of "0x80" "0xBF" ?s 2]
      by (auto simp: less_numeral_cases split: if_splits)
  next
    case four
    then have d: "decode_rune ?s =
        ((?b mod 8) * 262144 + low6 ?s 1 * 4096 + low6 ?s 2 * 64 + low6 ?s 3, 4)"
      using c by (simp only: decode_rune_def Let_def nth_Cons_0) simp
    have "1 \<le> ?b mod 8 \<or> 16 \<le> low6 ?s 1"
    proof (cases "?b = 0xF0")
      case True
      with four show ?thesis using lead_bits(5) by (simp add: cont_def low6_def)
    next
      case False
      with four lead_bits(3) [of ?b] show ?thesis by simp
    qed
    moreover have "cont 0x80 0xBF ?s 3" "cont 0x80 0xBF ?s 2" "cont ?lo ?hi ?s 1" using four by blast+
    ultimately have large: "0x80 \<le> (?b mod 8) * 262144 + low6 ?s 1 * 4096 + low6 ?s 2 * 64 + low6 ?s 3"
      and b: "3 < length ?s" "0x80 \<le> byte (?s ! 1)" "0x80 \<le> byte (?s ! 2)" "0x80 \<le> byte (?s ! 3)"
      using cont_lo [of ?lo ?hi ?s 1] cont_lo [of "0x80" "0xBF" ?s 2] cont_lo [of "0x80" "0xBF" ?s 3]
      by (linarith, simp_all)
    have "i < length cs \<and> 0x80 \<le> byte (cs ! i)" if "i < 3" for i
    proof -
      from that have "i = 0 \<or> i = 1 \<or> i = 2" by linarith
      with b show ?thesis by (elim disjE) (auto simp: numeral_3_eq_3 numeral_2_eq_2)
    qed
    with large d show ?thesis by simp
  next
    case bad
    then show ?thesis by (simp add: RuneError_def)
  qed
qed

lemma decode_rune_width: "snd (decode_rune s) \<le> 4"
  by (simp add: decode_rune_def Let_def)

lemma length_runes: "length s \<le> 4 * length (runes s)"
proof (induction s rule: measure_induct_rule [of length])
  case (less s)
  show ?case
  proof (cases s)
    case (Cons c cs)
    obtain r w where d: "decode_rune (c # cs) = (r, w)" by fastforce
    with decode_rune_width [of "c # cs"] have "w \<le> 4" by simp
    moreover have "length (drop (w - 1) cs) \<le> 4 * length (runes (drop (w - 1) cs))"
      using less.IH [of "drop (w - 1) cs"] Cons by simp
    ultimately show ?thesis using Cons d by (simp add: runes.simps)
  qed simp
qed

section \<open>Visible text through a rune-wise copy\<close>

text \<open>
  An encoder that copies visible ASCII and turns every other rune into bytes that are not visible
  ASCII. A visible text occurs in such a copy, or in a truncated one, only if it occurred before.
\<close>

definition copies_visible :: "(nat \<Rightarrow> string) \<Rightarrow> bool" where
  "copies_visible h \<longleftrightarrow>
     (\<forall>c. is_graph c \<longrightarrow> h (byte c) = [c]) \<and>
     (\<forall>r. (r < 0x80 \<longrightarrow> \<not> is_graph (char_of r)) \<longrightarrow> h r \<noteq> [] \<and> list_all (\<lambda>c. \<not> is_graph c) (h r))"

lemma runes_Cons_ascii: "byte c < 0x80 \<Longrightarrow> runes (c # cs) = byte c # runes cs"
  by (simp add: runes.simps decode_rune_ascii)

lemma runes_Cons_other:
  "0x80 \<le> byte c \<Longrightarrow> \<exists>r k. 0x80 \<le> r \<and> runes (c # cs) = r # runes (drop k cs)"
  using decode_rune_not_ascii [of c cs] by (auto simp: runes.simps split: prod.splits)

lemma runes_step:
  "\<exists>r k. runes (c # cs) = r # runes (drop k cs) \<and>
     (if is_graph c then r = byte c \<and> k = 0 else r < 0x80 \<longrightarrow> \<not> is_graph (char_of r))"
proof (cases "byte c < 0x80")
  case True
  then show ?thesis using runes_Cons_ascii [OF True, of cs]
    by (intro exI [of _ "byte c"] exI [of _ 0]) (auto simp: byte_def)
next
  case False
  then obtain r k where "0x80 \<le> r" "runes (c # cs) = r # runes (drop k cs)"
    using runes_Cons_other [of c cs] by auto
  moreover have "\<not> is_graph c" using False by (simp add: is_graph_def)
  ultimately show ?thesis by (intro exI [of _ r] exI [of _ k]) auto
qed

lemma visible_prefix:
  assumes h: "copies_visible h"
  shows "list_all is_graph u \<Longrightarrow> prefix u (concat (map h (take n (runes v)))) \<Longrightarrow> prefix u v"
proof (induction v arbitrary: u n rule: measure_induct_rule [of length])
  case (less v)
  show ?case
  proof (cases "u = [] \<or> v = [] \<or> n = 0")
    case True
    with less.prems show ?thesis by (auto simp: runes.simps)
  next
    case False
    then obtain c cs m where v: "v = c # cs" and n: "n = Suc m" by (cases v; cases n) auto
    obtain d us where u: "u = d # us" using False by (cases u) auto
    obtain r k where r: "runes v = r # runes (drop k cs)"
      "if is_graph c then r = byte c \<and> k = 0 else r < 0x80 \<longrightarrow> \<not> is_graph (char_of r)"
      using runes_step [of c cs] v by auto
    show ?thesis
    proof (cases "is_graph c")
      case True
      with r h have "h r = [c]" by (simp add: copies_visible_def)
      with less.prems(2) r True n u have "d = c" "prefix us (concat (map h (take m (runes cs))))" by auto
      with less.IH [of cs us m] less.prems(1) v u show ?thesis by simp
    next
      case False
      with r h have "h r \<noteq> []" "list_all (\<lambda>c. \<not> is_graph c) (h r)" by (auto simp: copies_visible_def)
      with less.prems r n u show ?thesis by (cases "h r") auto
    qed
  qed
qed

lemma sublist_drop_other:
  assumes "list_all P u" "list_all (\<lambda>c. \<not> P c) x" "u \<noteq> []" "sublist u (x @ y)"
  shows "sublist u y"
proof -
  have no: "zs = []" if "list_all P zs" "set zs \<subseteq> set x" for zs
    using that assms(2) by (cases zs) (auto simp: list_all_iff)
  from assms(4) consider "sublist u x" | "sublist u y"
    | u1 u2 where "u = u1 @ u2" "suffix u1 x" "prefix u2 y"
    by (auto simp: sublist_append)
  then show ?thesis
  proof cases
    case 1
    then show ?thesis using no [of u] assms(1,3) set_mono_sublist by blast
  next
    case 3
    then have "set u1 \<subseteq> set x" by (intro set_mono_suffix)
    with 3 have "u1 = []" using no [of u1] assms(1) by (simp add: list_all_iff)
    with 3 show ?thesis by simp
  qed
qed

lemma sublist_drop_tail:
  assumes "list_all P u" "list_all (\<lambda>c. \<not> P c) y" "u \<noteq> []" "sublist u (x @ y)"
  shows "sublist u x"
proof -
  have no: "zs = []" if "list_all P zs" "set zs \<subseteq> set y" for zs
    using that assms(2) by (cases zs) (auto simp: list_all_iff)
  from assms(4) consider "sublist u x" | "sublist u y"
    | u1 u2 where "u = u1 @ u2" "suffix u1 x" "prefix u2 y"
    by (auto simp: sublist_append)
  then show ?thesis
  proof cases
    case 2
    then show ?thesis using no [of u] assms(1,3) set_mono_sublist by blast
  next
    case 3
    then have "set u2 \<subseteq> set y" by (intro set_mono_prefix)
    with 3 have "u2 = []" using no [of u2] assms(1) by (simp add: list_all_iff)
    with 3 show ?thesis by (simp add: suffix_imp_sublist)
  qed
qed

lemma visible_sublist:
  assumes h: "copies_visible h" and u: "list_all is_graph u" "u \<noteq> []"
  shows "sublist u (concat (map h (take n (runes v)))) \<Longrightarrow> sublist u v"
proof (induction v arbitrary: n rule: measure_induct_rule [of length])
  case (less v)
  show ?case
  proof (cases "v = [] \<or> n = 0")
    case True
    with less.prems u(2) show ?thesis by (auto simp: runes.simps)
  next
    case False
    then obtain c cs m where v: "v = c # cs" and n: "n = Suc m" by (cases v; cases n) auto
    obtain r k where r: "runes v = r # runes (drop k cs)"
      "if is_graph c then r = byte c \<and> k = 0 else r < 0x80 \<longrightarrow> \<not> is_graph (char_of r)"
      using runes_step [of c cs] v by auto
    let ?rest = "concat (map h (take m (runes (drop k cs))))"
    have occurs: "sublist u v" if "sublist u ?rest"
    proof -
      have "sublist u (drop k cs)" using less.IH [of "drop k cs" m] that v by simp
      moreover have "sublist (drop k cs) v" using v by (metis sublist_Cons_right sublist_drop)
      ultimately show ?thesis by (metis sublist_def append.assoc)
    qed
    show ?thesis
    proof (cases "is_graph c")
      case True
      with r h have "h r = [c]" by (simp add: copies_visible_def)
      with less.prems r n have "prefix u (c # ?rest) \<or> sublist u ?rest"
        by (simp add: sublist_Cons_right)
      moreover have "prefix u v" if "prefix u (c # ?rest)"
        using that visible_prefix [OF h u(1), of n v] r n \<open>h r = [c]\<close> by simp
      ultimately show ?thesis using occurs prefix_imp_sublist by blast
    next
      case False
      with r h have "list_all (\<lambda>c. \<not> is_graph c) (h r)" by (auto simp: copies_visible_def)
      with less.prems r n have "sublist u ?rest"
        using sublist_drop_other [OF u(1), of "h r" ?rest] u(2) by simp
      then show ?thesis by (rule occurs)
    qed
  qed
qed

section \<open>strings.ReplaceAll\<close>

function ReplaceAll :: "string \<Rightarrow> string \<Rightarrow> string \<Rightarrow> string" where
  "ReplaceAll [] old new = []"
| "ReplaceAll (c # cs) old new =
     (if old \<noteq> [] \<and> HasPrefix (c # cs) old
      then new @ ReplaceAll (drop (length old) (c # cs)) old new
      else c # ReplaceAll cs old new)"
  by pat_completeness auto
termination
  by (relation "measure (\<lambda>(s, old, new). length s)") auto

declare ReplaceAll.simps(2) [simp del]

lemma HasPrefix_prefix: "HasPrefix s p \<longleftrightarrow> prefix p s"
  by (auto simp: HasPrefix_iff prefix_def)

lemma ReplaceAll_id: "old \<noteq> [] \<Longrightarrow> \<not> sublist old s \<Longrightarrow> ReplaceAll s old new = s"
proof (induction s)
  case (Cons c cs)
  then show ?case by (simp add: ReplaceAll.simps HasPrefix_prefix sublist_Cons_right)
qed simp

text \<open>
  The marker is bracketed, so a text without brackets that is not part of the marker cannot be
  spelled by what a replacement leaves.
\<close>

lemma ReplaceAll_prefix:
  assumes "b \<notin> set u" "new = b # bs"
  shows "prefix u (ReplaceAll s old new) \<Longrightarrow> prefix u s"
  using assms
proof (induction s old new arbitrary: u rule: ReplaceAll.induct)
  case (2 c cs old new)
  show ?case
  proof (cases "old \<noteq> [] \<and> HasPrefix (c # cs) old")
    case True
    with 2 show ?thesis by (cases u) (auto simp: ReplaceAll.simps)
  next
    case False
    show ?thesis
    proof (cases u)
      case (Cons d us)
      with 2 False have "d = c" "prefix us (ReplaceAll cs old new)" by (auto simp: ReplaceAll.simps)
      with "2.IH"(2) [OF False, of us] 2(4,5) Cons show ?thesis by simp
    qed simp
  qed
qed simp

lemma sublist_across_marker:
  assumes "sublist u (b # m @ e # t)" "b \<notin> set u" "e \<notin> set u" "u \<noteq> []"
  shows "sublist u m \<or> sublist u t"
proof -
  have "sublist u (m @ e # t)"
    using assms by (cases u) (auto simp: sublist_Cons_right prefix_Cons)
  then consider "sublist u m" | "sublist u (e # t)"
    | u1 u2 where "u = u1 @ u2" "suffix u1 m" "prefix u2 (e # t)"
    by (auto simp: sublist_append)
  then show ?thesis
  proof cases
    case 2
    then show ?thesis using assms(3,4) by (cases u) (auto simp: sublist_Cons_right prefix_Cons)
  next
    case 3
    then have "u2 = []" using assms(3) by (cases u2) (auto simp: prefix_Cons)
    with 3 show ?thesis by (simp add: suffix_imp_sublist)
  qed blast
qed

lemma ReplaceAll_no_occurrence:
  assumes "old \<noteq> []" "b \<notin> set old" "e \<notin> set old" "\<not> sublist old m"
  shows "\<not> sublist old (ReplaceAll s old (b # m @ [e]))"
proof (induction s rule: measure_induct_rule [of length])
  case (less s)
  show ?case
  proof (cases s)
    case Nil
    with assms(1) show ?thesis by simp
  next
    case (Cons c cs)
    show ?thesis
    proof (cases "HasPrefix s old")
      case True
      let ?t = "ReplaceAll (drop (length old) s) old (b # m @ [e])"
      have "\<not> sublist old ?t" using less.IH [of "drop (length old) s"] assms(1) Cons by simp
      moreover have "ReplaceAll s old (b # m @ [e]) = b # m @ e # ?t"
        using True assms(1) Cons by (simp add: ReplaceAll.simps)
      ultimately show ?thesis using sublist_across_marker assms by metis
    next
      case False
      have "\<not> prefix old (ReplaceAll s old (b # m @ [e]))"
        using ReplaceAll_prefix [OF assms(2) refl] False by (auto simp: HasPrefix_prefix)
      moreover have "ReplaceAll s old (b # m @ [e]) = c # ReplaceAll cs old (b # m @ [e])"
        using False Cons by (simp add: ReplaceAll.simps)
      ultimately show ?thesis using less.IH [of cs] Cons by (simp add: sublist_Cons_right)
    qed
  qed
qed

end
