(* ===== verification/Go_Json.thy ===== *)
theory Go_Json
  imports Go_Utf8 Go_Strconv "HOL-Library.AList"
begin

text \<open>
  What the program uses of \<open>encoding/json\<close>: decoding a \<open>map[string]any\<close> or an \<open>any\<close> with
  \<open>UseNumber\<close>, and encoding a list of strings. A decoded object is the list of the entries of Go's
  map, its keys distinct, in the order of their first occurrence; a later duplicate replaces the
  value. The decoder is \<open>scanner.go\<close>'s state machine: a stack of open arrays and objects, and what
  may come next; its nesting limit is the library's.
\<close>

section \<open>Values\<close>

datatype json =
    JNull
  | JBool bool
  | JNumber string
  | JString string
  | JArray "json list"
  | JObject "(string \<times> json) list"

type_synonym object = "(string \<times> json) list"

section \<open>Tokens\<close>

datatype token = OpenArray | CloseArray | OpenObject | CloseObject | Comma | Colon | Scalar json

datatype lexed = NoToken | BadToken | Token token string

definition quote :: char where "quote = CHR 0x22"
definition backslash :: char where "backslash = CHR 0x5C"

definition is_json_space :: "char \<Rightarrow> bool" where
  "is_json_space c \<longleftrightarrow> byte c \<in> set [9, 10, 13, 32]"

definition hex4 :: "string \<Rightarrow> nat option" where
  "hex4 s =
     (if 4 \<le> length s \<and> list_all (\<lambda>c. digit_val c \<noteq> None) (take 4 s)
      then Some (nat_value 16 (take 4 s)) else None)"

text \<open>The rune \<open>\uXXXX\<close> stands for, and the text after it; two surrogates make one rune.\<close>

definition read_unicode :: "string \<Rightarrow> (nat \<times> string) option" where
  "read_unicode s =
     (case hex4 s of
        None \<Rightarrow> None
      | Some r \<Rightarrow>
          let rest = drop 4 s
          in if r < 0xD800 \<or> 0xE000 \<le> r then Some (r, rest)
             else (case (if HasPrefix rest [backslash, CHR ''u''] then hex4 (drop 2 rest) else None) of
                     Some r1 \<Rightarrow>
                       if r < 0xDC00 \<and> 0xDC00 \<le> r1 \<and> r1 < 0xE000
                       then Some ((r - 0xD800) * 1024 + (r1 - 0xDC00) + 0x10000, drop 6 rest)
                       else Some (RuneError, rest)
                   | None \<Rightarrow> Some (RuneError, rest)))"

fun read_escape :: "string \<Rightarrow> (string \<times> string) option" where
  "read_escape [] = None"
| "read_escape (e # rest) =
     (if e = quote \<or> e = backslash \<or> e = CHR ''/'' then Some ([e], rest)
      else if e = CHR ''b'' then Some ([CHR 0x08], rest)
      else if e = CHR ''f'' then Some ([CHR 0x0C], rest)
      else if e = CHR ''n'' then Some ([CHR 0x0A], rest)
      else if e = CHR ''r'' then Some ([CHR 0x0D], rest)
      else if e = CHR ''t'' then Some ([CHR 0x09], rest)
      else if e = CHR ''u'' then map_option (apfst encode_rune) (read_unicode rest)
      else None)"

lemma read_unicode_shorter: "read_unicode s = Some (r, rest) \<Longrightarrow> length rest < length s"
  by (auto simp: read_unicode_def hex4_def Let_def split: option.splits if_splits)

lemma read_escape_shorter: "read_escape s = Some (t, rest) \<Longrightarrow> length rest < length s"
  by (cases s) (auto dest!: read_unicode_shorter split: if_splits)

text \<open>The text of a string literal after its opening quote, and what follows its closing quote.\<close>

function read_string :: "string \<Rightarrow> (string \<times> string) option" where
  "read_string [] = None"
| "read_string (c # cs) =
     (if c = quote then Some ([], cs)
      else if c = backslash
      then (case read_escape cs of
              None \<Rightarrow> None
            | Some (t, rest) \<Rightarrow> map_option (apfst ((@) t)) (read_string rest))
      else if byte c < 0x20 then None
      else (case decode_rune (c # cs) of
              (r, w) \<Rightarrow> map_option (apfst ((@) (encode_rune r))) (read_string (drop (w - 1) cs))))"
  by pat_completeness auto
termination
  by (relation "measure length") (auto dest: read_escape_shorter)

declare read_string.simps [simp del]

lemma read_string_shorter: "read_string s = Some (t, rest) \<Longrightarrow> length rest < length s"
proof (induction s arbitrary: t rest rule: measure_induct_rule [of length])
  case (less s)
  show ?case
  proof (cases s)
    case Nil
    with less.prems show ?thesis by (simp add: read_string.simps)
  next
    case (Cons c cs)
    consider "rest = cs" | u v t' where "read_escape cs = Some (u, v)" "read_string v = Some (t', rest)"
      | k t' where "read_string (drop k cs) = Some (t', rest)"
      using less.prems Cons by (auto simp: read_string.simps split: if_splits option.splits prod.splits)
    then show ?thesis
    proof cases
      case 2
      then show ?thesis using less.IH [of v] Cons read_escape_shorter by fastforce
    next
      case 3
      then show ?thesis using less.IH [of "drop k cs"] Cons by fastforce
    qed (simp add: Cons)
  qed
qed

text \<open>A number literal: its text and what follows it.\<close>

definition read_digits :: "string \<Rightarrow> (string \<times> string) option" where
  "read_digits s =
     (let ds = takeWhile is_digit s in if ds = [] then None else Some (ds, dropWhile is_digit s))"

definition read_integer :: "string \<Rightarrow> (string \<times> string) option" where
  "read_integer s = (if HasPrefix s ''0'' then Some (''0'', tl s) else read_digits s)"

definition read_fraction :: "string \<Rightarrow> (string \<times> string) option" where
  "read_fraction s =
     (if HasPrefix s ''.'' then map_option (apfst ((@) ''.'')) (read_digits (tl s)) else Some ([], s))"

definition read_exponent :: "string \<Rightarrow> (string \<times> string) option" where
  "read_exponent s =
     (if HasPrefix s ''e'' \<or> HasPrefix s ''E''
      then (let n = (if HasPrefix (tl s) ''+'' \<or> HasPrefix (tl s) ''-'' then 2 else 1)
            in map_option (apfst ((@) (take n s))) (read_digits (drop n s)))
      else Some ([], s))"

definition read_number :: "string \<Rightarrow> (string \<times> string) option" where
  "read_number s =
     (let sign = (if HasPrefix s ''-'' then ''-'' else [])
      in Option.bind (read_integer (drop (length sign) s)) (\<lambda>(i, s1).
         Option.bind (read_fraction s1) (\<lambda>(f, s2).
         Option.bind (read_exponent s2) (\<lambda>(e, s3). Some (sign @ i @ f @ e, s3)))))"

definition punctuation :: "char \<Rightarrow> token option" where
  "punctuation =
     map_of [(CHR ''['', OpenArray), (CHR '']'', CloseArray), (CHR ''{'', OpenObject),
             (CHR ''}'', CloseObject), (CHR '','', Comma), (CHR '':'', Colon)]"

definition next_token :: "string \<Rightarrow> lexed" where
  "next_token s =
     (case dropWhile is_json_space s of
        [] \<Rightarrow> NoToken
      | c # cs \<Rightarrow>
          (case punctuation c of
             Some t \<Rightarrow> Token t cs
           | None \<Rightarrow>
               if c = quote
               then (case read_string cs of None \<Rightarrow> BadToken | Some (t, rest) \<Rightarrow> Token (Scalar (JString t)) rest)
               else if c = CHR ''-'' \<or> is_digit c
               then (case read_number (c # cs) of None \<Rightarrow> BadToken | Some (n, rest) \<Rightarrow> Token (Scalar (JNumber n)) rest)
               else if HasPrefix (c # cs) ''null'' then Token (Scalar JNull) (drop 3 cs)
               else if HasPrefix (c # cs) ''true'' then Token (Scalar (JBool True)) (drop 3 cs)
               else if HasPrefix (c # cs) ''false'' then Token (Scalar (JBool False)) (drop 4 cs)
               else BadToken))"

lemma read_digits_shorter: "read_digits s = Some (t, rest) \<Longrightarrow> length rest < length s"
proof -
  assume a: "read_digits s = Some (t, rest)"
  then have t: "takeWhile is_digit s \<noteq> []" "rest = dropWhile is_digit s"
    by (auto simp: read_digits_def Let_def split: if_splits)
  have "length s = length (takeWhile is_digit s) + length (dropWhile is_digit s)"
    by (metis length_append takeWhile_dropWhile_id)
  with t show ?thesis by simp
qed

lemma HasPrefix_ne: "HasPrefix s (c # p) \<Longrightarrow> s \<noteq> []"
  by (auto simp: HasPrefix_iff)

lemma read_integer_shorter: "read_integer s = Some (t, rest) \<Longrightarrow> length rest < length s"
  by (auto simp: read_integer_def dest: read_digits_shorter HasPrefix_ne split: if_splits)

lemma read_fraction_le: "read_fraction s = Some (t, rest) \<Longrightarrow> length rest \<le> length s"
  by (auto simp: read_fraction_def dest!: read_digits_shorter split: if_splits)

lemma read_exponent_le: "read_exponent s = Some (t, rest) \<Longrightarrow> length rest \<le> length s"
  by (auto simp: read_exponent_def Let_def dest!: read_digits_shorter split: if_splits)

lemma read_number_shorter: "read_number s = Some (t, rest) \<Longrightarrow> length rest < length s"
proof -
  assume "read_number s = Some (t, rest)"
  then obtain k i s1 f s2 e where "read_integer (drop k s) = Some (i, s1)"
    "read_fraction s1 = Some (f, s2)" "read_exponent s2 = Some (e, rest)"
    by (auto simp: read_number_def Let_def bind_eq_Some_conv)
  then show ?thesis using read_integer_shorter read_fraction_le read_exponent_le by fastforce
qed

lemma next_token_shorter: "next_token s = Token t rest \<Longrightarrow> length rest < length s"
proof -
  assume a: "next_token s = Token t rest"
  then obtain c cs where cs: "dropWhile is_json_space s = c # cs"
    by (cases "dropWhile is_json_space s") (auto simp: next_token_def)
  then have "length (c # cs) \<le> length s" by (metis length_dropWhile_le)
  moreover have "length rest < length (c # cs)"
    using a cs by (auto simp: next_token_def dest: read_string_shorter read_number_shorter
      split: if_splits option.splits)
  ultimately show ?thesis by linarith
qed

section \<open>Decoding\<close>

text \<open>An open array holds its items so far, last first; an open object its entries and the key read last.\<close>

datatype frame = FArray "json list" | FObject object string

datatype goal = WantValue | WantFirst | WantKey bool | WantColon | Have json

datatype decode_step = EndOfInput | Malformed | Decoded json string

definition maxNestingDepth :: nat where "maxNestingDepth = 10000"

definition push :: "frame \<Rightarrow> frame list \<Rightarrow> frame list option" where
  "push f stack = (if length stack < maxNestingDepth then Some (f # stack) else None)"

text \<open>What a token does to the machine; \<open>None\<close> is a syntax error.\<close>

fun begin_value :: "token \<Rightarrow> frame list \<Rightarrow> (frame list \<times> goal) option" where
  "begin_value OpenArray stack = map_option (\<lambda>st. (st, WantFirst)) (push (FArray []) stack)"
| "begin_value OpenObject stack = map_option (\<lambda>st. (st, WantKey True)) (push (FObject [] []) stack)"
| "begin_value (Scalar v) stack = Some (stack, Have v)"
| "begin_value t stack = None"

fun accept :: "token \<Rightarrow> goal \<Rightarrow> frame list \<Rightarrow> (frame list \<times> goal) option" where
  "accept t WantValue stack = begin_value t stack"
| "accept t WantFirst stack =
     (case (t, stack) of
        (CloseArray, FArray items # st) \<Rightarrow> Some (st, Have (JArray []))
      | _ \<Rightarrow> begin_value t stack)"
| "accept t (WantKey first) stack =
     (case (t, stack) of
        (Scalar (JString k), FObject entries _ # st) \<Rightarrow> Some (FObject entries k # st, WantColon)
      | (CloseObject, FObject entries _ # st) \<Rightarrow> if first then Some (st, Have (JObject entries)) else None
      | _ \<Rightarrow> None)"
| "accept t WantColon stack = (if t = Colon then Some (stack, WantValue) else None)"
| "accept t (Have v) stack =
     (case (t, stack) of
        (Comma, FArray items # st) \<Rightarrow> Some (FArray (v # items) # st, WantValue)
      | (CloseArray, FArray items # st) \<Rightarrow> Some (st, Have (JArray (rev (v # items))))
      | (Comma, FObject entries k # st) \<Rightarrow> Some (FObject (AList.update k v entries) k # st, WantKey False)
      | (CloseObject, FObject entries k # st) \<Rightarrow> Some (st, Have (JObject (AList.update k v entries)))
      | _ \<Rightarrow> None)"

function parse :: "frame list \<Rightarrow> goal \<Rightarrow> string \<Rightarrow> decode_step" where
  "parse stack g s =
     (case (g, stack) of
        (Have v, []) \<Rightarrow> Decoded v s
      | _ \<Rightarrow>
          (case next_token s of
             Token t rest \<Rightarrow>
               (case accept t g stack of
                  Some (stack', g') \<Rightarrow> parse stack' g' rest
                | None \<Rightarrow> Malformed)
           | _ \<Rightarrow> Malformed))"
  by pat_completeness auto
termination
  by (relation "measure (\<lambda>(stack, g, s). length s)") (auto dest: next_token_shorter)

declare parse.simps [simp del]

text \<open>\<open>decoder.Decode\<close>: one value off the text; only blanks left is \<open>io.EOF\<close>.\<close>

definition Decode :: "string \<Rightarrow> decode_step" where
  "Decode s = (if list_all is_json_space s then EndOfInput else parse [] WantValue s)"

section \<open>Progress and well-formedness\<close>

lemma parse_Decoded_iff:
  "parse stack g s = Decoded v rest \<longleftrightarrow>
     stack = [] \<and> g = Have v \<and> rest = s \<or>
     \<not> (stack = [] \<and> (\<exists>w. g = Have w)) \<and>
     (\<exists>t r stack' g'. next_token s = Token t r \<and> accept t g stack = Some (stack', g') \<and>
        parse stack' g' r = Decoded v rest)"
  by (subst parse.simps, cases stack) (auto split: goal.splits lexed.splits option.splits)

text \<open>Rule induction on a successful run of the machine, from its end.\<close>

lemma parse_induct [consumes 1, case_names finish step]:
  assumes "parse stack g s = Decoded v rest"
    and "P [] (Have v) rest"
    and "\<And>t r s stack g stack' g'. next_token s = Token t r \<Longrightarrow> accept t g stack = Some (stack', g') \<Longrightarrow>
           \<not> (stack = [] \<and> (\<exists>w. g = Have w)) \<Longrightarrow> P stack' g' r \<Longrightarrow> P stack g s"
  shows "P stack g s"
  using assms(1)
proof (induction s arbitrary: stack g rule: measure_induct_rule [of length])
  case (less s)
  then show ?case using assms(2,3) next_token_shorter unfolding parse_Decoded_iff [of stack g s] by blast
qed

lemma parse_le: "parse stack g s = Decoded v rest \<Longrightarrow> length rest \<le> length s"
  by (induction stack g s rule: parse_induct) (auto dest: next_token_shorter)

text \<open>A decoded value takes at least one byte of the text.\<close>

lemma Decode_progress: "Decode s = Decoded v rest \<Longrightarrow> length rest < length s"
  using next_token_shorter parse_le
  by (auto simp: Decode_def parse_Decoded_iff [of "[]" WantValue] split: if_splits)
    (meson le_less_trans)

text \<open>Objects are maps: no key occurs twice in one, at any depth.\<close>

primrec well_keyed :: "json \<Rightarrow> bool" where
  "well_keyed JNull = True"
| "well_keyed (JBool b) = True"
| "well_keyed (JNumber n) = True"
| "well_keyed (JString text) = True"
| "well_keyed (JArray items) = (\<forall>ok\<in>set (map well_keyed items). ok)"
| "well_keyed (JObject entries) =
     (distinct (map fst entries) \<and> (\<forall>e\<in>set (map (map_prod id well_keyed) entries). snd e))"

lemma well_keyed_JObject:
  "well_keyed (JObject entries) \<longleftrightarrow> distinct (map fst entries) \<and> (\<forall>e\<in>set entries. well_keyed (snd e))"
  by (auto simp: image_iff)

declare well_keyed.simps(6) [simp del]

fun frame_ok :: "frame \<Rightarrow> bool" where
  "frame_ok (FArray items) = list_all well_keyed items"
| "frame_ok (FObject entries k) = well_keyed (JObject entries)"

fun goal_ok :: "goal \<Rightarrow> bool" where
  "goal_ok (Have v) = well_keyed v"
| "goal_ok g = True"

lemma set_update: "set (AList.update k v entries) \<subseteq> insert (k, v) (set entries)"
  by (induction entries) auto

lemma well_keyed_update:
  "well_keyed (JObject entries) \<Longrightarrow> well_keyed v \<Longrightarrow> well_keyed (JObject (AList.update k v entries))"
  using set_update [of k v entries] unfolding well_keyed_JObject by (auto simp: distinct_update)

lemma punctuation_not_scalar: "punctuation c \<noteq> Some (Scalar v)"
  by (auto simp: punctuation_def split: if_splits)

lemma next_token_ok: "next_token s = Token (Scalar v) r \<Longrightarrow> well_keyed v"
  by (auto simp: next_token_def punctuation_not_scalar split: list.splits option.splits if_splits)

lemma begin_value_ok:
  "begin_value t stack = Some (stack', g') \<Longrightarrow> list_all frame_ok stack \<Longrightarrow>
     (\<And>v. t = Scalar v \<Longrightarrow> well_keyed v) \<Longrightarrow> list_all frame_ok stack' \<and> goal_ok g'"
  by (cases t) (auto simp: push_def well_keyed_JObject split: if_splits)

lemma accept_ok:
  assumes "accept t g stack = Some (stack', g')" "list_all frame_ok stack" "goal_ok g"
    and "\<And>v. t = Scalar v \<Longrightarrow> well_keyed v"
  shows "list_all frame_ok stack' \<and> goal_ok g'"
proof (cases g)
  case WantValue
  with assms begin_value_ok show ?thesis by simp
next
  case WantFirst
  then have "begin_value t stack = Some (stack', g') \<or>
      (\<exists>items st. stack = FArray items # st \<and> stack' = st \<and> g' = Have (JArray []))"
    using assms(1) by (auto split: token.splits list.splits frame.splits)
  with assms(2,4) begin_value_ok show ?thesis by auto
next
  case (WantKey first)
  with assms(1,2) show ?thesis
    by (auto split: token.splits list.splits frame.splits json.splits if_splits)
next
  case WantColon
  with assms(1,2) show ?thesis by (auto split: if_splits)
next
  case (Have v)
  with assms(1-3) show ?thesis
    by (auto simp: well_keyed_update list_all_iff split: token.splits list.splits frame.splits)
qed

lemma parse_well_keyed:
  "parse stack g s = Decoded v rest \<Longrightarrow> list_all frame_ok stack \<Longrightarrow> goal_ok g \<Longrightarrow> well_keyed v"
proof (induction stack g s rule: parse_induct)
  case (step t r s stack g stack' g')
  have "well_keyed w" if "t = Scalar w" for w using next_token_ok step.hyps(1) that by blast
  then show ?case using accept_ok [OF step.hyps(2)] step.IH step.prems by blast
qed simp

lemma Decode_well_keyed: "Decode s = Decoded v rest \<Longrightarrow> well_keyed v"
  using parse_well_keyed [of "[]" WantValue] by (auto simp: Decode_def split: if_splits)

section \<open>Encoding\<close>

text \<open>
  \<open>json.Marshal\<close> of a string with HTML escaping, byte by byte for ASCII; a longer rune is copied,
  an invalid byte and the two line separators are escaped.
\<close>

definition hex_lower :: "nat \<Rightarrow> char" where
  "hex_lower d = digit_char d"

definition encode_ascii :: "char \<Rightarrow> string" where
  "encode_ascii c =
     (if c = quote \<or> c = backslash then [backslash, c]
      else if c = CHR 0x08 then [backslash, CHR ''b'']
      else if c = CHR 0x0C then [backslash, CHR ''f'']
      else if c = CHR 0x0A then [backslash, CHR ''n'']
      else if c = CHR 0x0D then [backslash, CHR ''r'']
      else if c = CHR 0x09 then [backslash, CHR ''t'']
      else if byte c < 0x20 \<or> c \<in> set ''<>&''
      then [backslash, CHR ''u'', CHR ''0'', CHR ''0'', hex_lower (byte c div 16), hex_lower (byte c mod 16)]
      else [c])"

function encode_text :: "string \<Rightarrow> string" where
  "encode_text [] = []"
| "encode_text (c # cs) =
     (if byte c < 0x80 then encode_ascii c @ encode_text cs
      else (case decode_rune (c # cs) of
              (r, w) \<Rightarrow>
                (if r = RuneError \<and> w = 1 then [backslash] @ ''ufffd''
                 else if r = 0x2028 then [backslash] @ ''u2028''
                 else if r = 0x2029 then [backslash] @ ''u2029''
                 else take w (c # cs)) @ encode_text (drop (w - 1) cs)))"
  by pat_completeness auto
termination
  by (relation "measure length") auto

declare encode_text.simps [simp del]

definition encode_string :: "string \<Rightarrow> string" where
  "encode_string s = quote # encode_text s @ [quote]"

fun encode_items :: "string list \<Rightarrow> string" where
  "encode_items [] = []"
| "encode_items [s] = encode_string s"
| "encode_items (s # t # ts) = encode_string s @ '','' @ encode_items (t # ts)"

text \<open>\<open>json.Marshal(map[string]any{key: values})\<close> for a slice of strings.\<close>

definition Marshal_list :: "string \<Rightarrow> string list \<Rightarrow> string" where
  "Marshal_list key values =
     ''{'' @ encode_string key @ '':['' @ encode_items values @ '']}''"

text \<open>What was encoded decodes to itself.\<close>

lemma read_string_ascii:
  "byte c < 0x80 \<Longrightarrow> 0x20 \<le> byte c \<Longrightarrow> c \<noteq> quote \<Longrightarrow> c \<noteq> backslash \<Longrightarrow>
     read_string (c # cs) = map_option (apfst ((#) c)) (read_string cs)"
proof -
  assume "byte c < 0x80" "0x20 \<le> byte c" "c \<noteq> quote" "c \<noteq> backslash"
  moreover from this(1) have "encode_rune (byte c) = [c]" by (simp add: encode_rune_ascii byte_def)
  moreover have "(@) [c] = (#) c" by (simp add: fun_eq_iff)
  ultimately show ?thesis by (simp add: read_string.simps decode_rune_ascii)
qed

lemma read_string_escape:
  "read_escape cs = Some (t, rest) \<Longrightarrow>
     read_string (backslash # cs) = map_option (apfst ((@) t)) (read_string rest)"
  by (simp add: read_string.simps quote_def backslash_def)

lemma hex4_byte:
  "n < 256 \<Longrightarrow> hex4 (CHR ''0'' # CHR ''0'' # digit_char (n div 16) # digit_char (n mod 16) # rest) = Some n"
proof -
  assume n: "n < 256"
  then have "n div 16 < 16" "n mod 16 < 16" by auto
  then have "digit_val (digit_char (n div 16)) = Some (n div 16)"
    "digit_val (digit_char (n mod 16)) = Some (n mod 16)" by (simp_all add: digit_val_char)
  moreover have "digit_val (CHR ''0'') = Some 0" by code_simp
  ultimately show ?thesis by (simp add: hex4_def nat_value_def)
qed

lemma read_encode_ascii:
  assumes "byte c < 0x80"
  shows "read_string (encode_ascii c @ cs) = map_option (apfst ((#) c)) (read_string cs)"
proof (cases "c = quote \<or> c = backslash \<or> c \<in> set [CHR 0x08, CHR 0x0C, CHR 0x0A, CHR 0x0D, CHR 0x09]")
  case True
  have one: "(@) [d] = (#) d" for d :: char by (simp add: fun_eq_iff)
  from True have "c = quote \<or> c = backslash \<or> c = CHR 0x08 \<or> c = CHR 0x0C \<or> c = CHR 0x0A \<or> c = CHR 0x0D \<or> c = CHR 0x09"
    by simp
  then show ?thesis
    by (elim disjE; simp add: encode_ascii_def read_string_escape [unfolded backslash_def] one quote_def backslash_def)
next
  case plain: False
  show ?thesis
  proof (cases "byte c < 0x20 \<or> c \<in> set ''<>&''")
    case True
    have one: "(@) [c] = (#) c" by (simp add: fun_eq_iff)
    have "encode_ascii c =
        [backslash, CHR ''u'', CHR ''0'', CHR ''0'', digit_char (byte c div 16), digit_char (byte c mod 16)]"
      using plain True by (simp add: encode_ascii_def hex_lower_def)
    moreover have "read_escape (CHR ''u'' # CHR ''0'' # CHR ''0'' # digit_char (byte c div 16) # digit_char (byte c mod 16) # cs)
        = Some ([c], cs)"
      using assms hex4_byte [of "byte c" cs]
      by (simp add: read_unicode_def quote_def backslash_def encode_rune_ascii) (simp add: byte_def)
    ultimately show ?thesis by (simp add: read_string_escape one)
  next
    case False
    then have "encode_ascii c = [c]" using plain by (simp add: encode_ascii_def)
    with assms plain False show ?thesis by (simp add: read_string_ascii)
  qed
qed

lemma read_encode_text:
  "is_ascii s \<Longrightarrow> read_string (encode_text s @ quote # rest) = Some (s, rest)"
proof (induction s)
  case Nil
  then show ?case by (simp add: encode_text.simps read_string.simps)
next
  case (Cons c cs)
  then show ?case by (simp add: encode_text.simps is_ascii_def read_encode_ascii)
qed

lemma next_token_quote:
  "is_ascii s \<Longrightarrow> next_token (encode_string s @ rest) = Token (Scalar (JString s)) rest"
proof -
  assume "is_ascii s"
  moreover have "punctuation quote = None" "\<not> is_json_space quote" by code_simp+
  ultimately show ?thesis by (simp add: next_token_def encode_string_def read_encode_text)
qed

lemma next_token_punctuation: "punctuation c = Some t \<Longrightarrow> next_token (c # rest) = Token t rest"
proof -
  assume p: "punctuation c = Some t"
  then have "c \<in> set ''[]{},:''" by (auto simp: punctuation_def split: if_splits)
  then have "\<not> is_json_space c" by (auto simp: is_json_space_def byte_def)
  with p show ?thesis by (simp add: next_token_def)
qed

lemma parse_token:
  "next_token s = Token t rest \<Longrightarrow> accept t g stack = Some (stack', g') \<Longrightarrow>
     \<not> (stack = [] \<and> (\<exists>w. g = Have w)) \<Longrightarrow> parse stack g s = parse stack' g' rest"
  by (subst parse.simps, cases stack) (auto split: goal.splits)

lemma parse_items:
  "list_all is_ascii (v # vs) \<Longrightarrow>
     parse (FArray items # stack) WantValue (encode_items (v # vs) @ CHR '']'' # rest) =
     parse stack (Have (JArray (rev items @ map JString (v # vs)))) rest"
proof (induction vs arbitrary: v items)
  case Nil
  then show ?case
    by (simp add: parse_token [OF next_token_quote] parse_token [OF next_token_punctuation] punctuation_def)
next
  case (Cons w vs)
  then show ?case
    by (simp add: parse_token [OF next_token_quote] parse_token [OF next_token_punctuation] punctuation_def)
qed

text \<open>A marshalled list of ASCII strings decodes to the object it was made from.\<close>

lemma Decode_Marshal_list:
  assumes "is_ascii key" "list_all is_ascii (v # vs)"
  shows "Decode (Marshal_list key (v # vs)) = Decoded (JObject [(key, JArray (map JString (v # vs)))]) []"
proof -
  have first: "parse (FArray [] # stack) WantFirst s = parse (FArray [] # stack) WantValue s"
    if "next_token s = Token (Scalar w) r" for stack s w r
    using that by (simp add: parse_token)
  obtain u where u: "encode_items (v # vs) @ CHR '']'' # ''}'' = encode_string v @ u"
    by (cases vs) auto
  have f: "parse (FArray [] # stack) WantFirst (encode_items (v # vs) @ CHR '']'' # ''}'') =
      parse (FArray [] # stack) WantValue (encode_items (v # vs) @ CHR '']'' # ''}'')" for stack
    using first [OF next_token_quote] assms(2) unfolding u by simp
  have "\<not> list_all is_json_space (Marshal_list key (v # vs))"
    by (simp add: Marshal_list_def is_json_space_def byte_def)
  then have "Decode (Marshal_list key (v # vs)) = parse [] WantValue (Marshal_list key (v # vs))"
    by (simp add: Decode_def)
  also have "\<dots> = parse [] (Have (JObject [(key, JArray (map JString (v # vs)))])) []"
    using assms
    by (simp add: Marshal_list_def parse_token [OF next_token_quote] parse_token [OF next_token_punctuation]
        punctuation_def push_def maxNestingDepth_def f parse_items del: encode_items.simps)
  also have "\<dots> = Decoded (JObject [(key, JArray (map JString (v # vs)))]) []"
    by (simp add: parse.simps)
  finally show ?thesis .
qed

end
