(* ===== verification/Sanitize.thy ===== *)
theory Sanitize
  imports Go_Json
begin

text \<open>
  Component \<open>internal/synthient\<close> (\<open>client.go\<close>), the part that handles what the upstream answered:
  decoding, sanitising, error texts. A decoded JSON value is a \<open>json\<close> of \<open>Go_Json\<close>; Go's
  \<open>map[string]any\<close> is \<open>object option\<close>, \<open>None\<close> the nil map.
\<close>

section \<open>Sanitising\<close>

text \<open>
  \<open>strings.Map\<close> with a mapping that drops every rune but ASCII letters and digits. Every byte of a
  longer or broken encoding is above 127, so dropping runes is dropping bytes.
\<close>

definition sensitiveKey :: "string \<Rightarrow> bool" where
  "sensitiveKey key =
     (let normalized = map ascii_lower (filter (\<lambda>c. is_upper c \<or> is_lower c \<or> is_digit c) key)
      in normalized = ''apikey'' \<or> normalized = ''authorization'' \<or> normalized = ''accesstoken'' \<or>
         normalized = ''token'' \<or> normalized = ''secret'')"

definition redact :: "string \<Rightarrow> string \<Rightarrow> string" where
  "redact text secret = (if secret \<noteq> [] then ReplaceAll text secret ''[REDACTED]'' else text)"

primrec sanitizeValue :: "string \<Rightarrow> json \<Rightarrow> json" where
  "sanitizeValue secret JNull = JNull"
| "sanitizeValue secret (JBool b) = JBool b"
| "sanitizeValue secret (JNumber n) = JNumber n"
| "sanitizeValue secret (JString text) = JString (redact text secret)"
| "sanitizeValue secret (JArray items) = JArray (map (sanitizeValue secret) items)"
| "sanitizeValue secret (JObject entries) =
     JObject (filter (\<lambda>(key, _). \<not> sensitiveKey key) (map (map_prod id (sanitizeValue secret)) entries))"

text \<open>A nil map stays nil.\<close>

definition sanitizeObject :: "object option \<Rightarrow> string \<Rightarrow> object option" where
  "sanitizeObject value secret =
     (case value of
        None \<Rightarrow> None
      | Some entries \<Rightarrow>
          (case sanitizeValue secret (JObject entries) of JObject cleaned \<Rightarrow> Some cleaned | _ \<Rightarrow> None))"

section \<open>Decoding and error texts\<close>

text \<open>
  The first value must be an object, and nothing but blanks may follow it. Every error is \<open>None\<close>: the
  callers only ask whether there is one.
\<close>

definition decodeObject :: "string \<Rightarrow> object option" where
  "decodeObject raw =
     (case Decode raw of
        Decoded (JObject entries) rest \<Rightarrow>
          (case Decode rest of EndOfInput \<Rightarrow> Some entries | _ \<Rightarrow> None)
      | _ \<Rightarrow> None)"

definition blank_control :: "nat \<Rightarrow> nat" where
  "blank_control r = (if r < 0x20 \<or> r = 0x7F then 32 else r)"

definition ellipsis :: string where
  "ellipsis = map char_of [0xE2, 0x80, 0xA6 :: nat]"

definition bounded_detail :: "string \<Rightarrow> string" where
  "bounded_detail text =
     (let text = Map_runes blank_control (TrimSpace text);
          rs = runes text
      in if 500 < length rs then string_of_runes (take 500 rs) @ ellipsis else text)"

fun detail_from :: "string list \<Rightarrow> object \<Rightarrow> string" where
  "detail_from [] decoded = []"
| "detail_from (key # keys) decoded =
     (case map_of decoded key of
        Some (JString text) \<Rightarrow>
          if TrimSpace text \<noteq> [] then bounded_detail text else detail_from keys decoded
      | _ \<Rightarrow> detail_from keys decoded)"

definition errorDetail :: "object option \<Rightarrow> string" where
  "errorDetail decoded =
     (case decoded of None \<Rightarrow> [] | Some entries \<Rightarrow> detail_from [''message'', ''error'', ''detail''] entries)"

section \<open>The response half of requestQuery\<close>

definition maxResponseBytes :: nat where "maxResponseBytes = 16 * 2 ^ 20"

record APIError =
  Status :: int
  RetryAfter :: string
  ErrMessage :: string

definition response_too_large :: APIError where
  "response_too_large =
     \<lparr>Status = 502, RetryAfter = [], ErrMessage = ''Synthient API response exceeded 16 MiB''\<rparr>"

definition response_invalid :: APIError where
  "response_invalid =
     \<lparr>Status = 502, RetryAfter = [], ErrMessage = ''Synthient API returned an invalid JSON object''\<rparr>"

text \<open>
  What \<open>requestQuery\<close> makes of a response whose body, read up to one byte beyond the limit, is \<open>raw\<close>:
  the object, or the error returned to the tool.
\<close>

definition handle_response ::
  "string \<Rightarrow> int \<Rightarrow> string \<Rightarrow> string \<Rightarrow> (APIError, object) result" where
  "handle_response apiKey code retryAfter raw =
     (if maxResponseBytes < length raw
      then Inl response_too_large
      else
        (let decoded = sanitizeObject (decodeObject raw) apiKey
         in if code < 200 \<or> 300 \<le> code
            then (let detail = errorDetail decoded;
                      message = ''Synthient API returned HTTP '' @ Itoa code;
                      message = (if detail \<noteq> [] then message @ '': '' @ detail else message);
                      message = (if code = 429 \<and> retryAfter \<noteq> []
                                 then message @ ''. Retry-After: '' @ retryAfter else message)
                  in Inl \<lparr>Status = code, RetryAfter = retryAfter, ErrMessage = message\<rparr>)
            else (case decoded of
                    None \<Rightarrow> Inl response_invalid
                  | Some entries \<Rightarrow> Inr entries)))"

section \<open>Where a value holds keys and texts\<close>

primrec json_keys :: "json \<Rightarrow> string set" where
  "json_keys JNull = {}"
| "json_keys (JBool b) = {}"
| "json_keys (JNumber n) = {}"
| "json_keys (JString text) = {}"
| "json_keys (JArray items) = \<Union> (set (map json_keys items))"
| "json_keys (JObject entries) =
     fst ` set entries \<union> \<Union> (snd ` set (map (map_prod id json_keys) entries))"

primrec json_texts :: "json \<Rightarrow> string set" where
  "json_texts JNull = {}"
| "json_texts (JBool b) = {}"
| "json_texts (JNumber n) = {}"
| "json_texts (JString text) = {text}"
| "json_texts (JArray items) = \<Union> (set (map json_texts items))"
| "json_texts (JObject entries) = \<Union> (snd ` set (map (map_prod id json_texts) entries))"

text \<open>
  A value that may be shown: no sensitive key at any depth, and the secret in no text. A secret the
  redaction can guarantee this for has no bracket and is not part of the marker itself.
\<close>

definition clean :: "string \<Rightarrow> json \<Rightarrow> bool" where
  "clean secret v \<longleftrightarrow>
     (\<forall>k\<in>json_keys v. \<not> sensitiveKey k) \<and> (secret \<noteq> [] \<longrightarrow> (\<forall>t\<in>json_texts v. \<not> sublist secret t))"

definition redactable :: "string \<Rightarrow> bool" where
  "redactable secret \<longleftrightarrow>
     CHR ''['' \<notin> set secret \<and> CHR '']'' \<notin> set secret \<and> \<not> sublist secret ''REDACTED''"

lemma redact_clean:
  assumes "secret \<noteq> []" and "redactable secret"
  shows "\<not> sublist secret (redact text secret)"
proof -
  have "\<not> sublist secret (ReplaceAll text secret (CHR ''['' # ''REDACTED'' @ [CHR '']'']))"
    using assms by (intro ReplaceAll_no_occurrence) (auto simp: redactable_def)
  with assms(1) show ?thesis by (simp add: redact_def)
qed

lemma redact_id: "secret \<noteq> [] \<longrightarrow> \<not> sublist secret text \<Longrightarrow> redact text secret = text"
  by (simp add: redact_def ReplaceAll_id)

lemma clean_JArray: "clean secret (JArray items) \<longleftrightarrow> (\<forall>item\<in>set items. clean secret item)"
  by (simp add: clean_def) blast

lemma clean_JObject:
  "clean secret (JObject entries) \<longleftrightarrow> (\<forall>e\<in>set entries. \<not> sensitiveKey (fst e) \<and> clean secret (snd e))"
proof -
  have "json_keys (JObject entries) = fst ` set entries \<union> (\<Union>e\<in>set entries. json_keys (snd e))"
    "json_texts (JObject entries) = (\<Union>e\<in>set entries. json_texts (snd e))"
    by (auto simp: image_iff)
  then show ?thesis unfolding clean_def by (simp add: ball_Un) blast
qed

lemma clean_simps [simp]:
  "clean secret JNull" "clean secret (JBool b)" "clean secret (JNumber n)"
  "clean secret (JString text) \<longleftrightarrow> (secret \<noteq> [] \<longrightarrow> \<not> sublist secret text)"
  by (simp_all add: clean_def)

lemma sanitizeValue_clean: "redactable secret \<Longrightarrow> clean secret (sanitizeValue secret v)"
  by (induction v) (force simp: redact_clean clean_JArray clean_JObject)+

lemma sanitizeValue_id: "clean secret v \<Longrightarrow> sanitizeValue secret v = v"
proof (induction v)
  case (JArray items)
  then show ?case by (simp add: map_idI clean_JArray)
next
  case (JObject entries)
  have "map (map_prod id (sanitizeValue secret)) entries = entries"
  proof (rule map_idI)
    fix e assume e: "e \<in> set entries"
    then have "clean secret (snd e)" using JObject.prems by (simp add: clean_JObject)
    with JObject.IH [OF e, of "snd e"] show "map_prod id (sanitizeValue secret) e = e"
      by (cases e) (simp add: snds.simps)
  qed
  moreover have "filter (\<lambda>(key, _). \<not> sensitiveKey key) entries = entries"
    using JObject.prems by (auto simp: filter_id_conv clean_JObject)
  ultimately show ?case by simp
qed (simp_all add: redact_id)

lemma sanitizeObject_Some:
  "sanitizeObject (Some entries) secret =
     Some (filter (\<lambda>(key, _). \<not> sensitiveKey key) (map (map_prod id (sanitizeValue secret)) entries))"
  by (simp add: sanitizeObject_def)

lemma sanitizeObject_clean:
  "redactable secret \<Longrightarrow> sanitizeObject obj secret = Some entries \<Longrightarrow> clean secret (JObject entries)"
  using sanitizeValue_clean [of secret "JObject (the obj)"]
  by (cases obj) (auto simp: sanitizeObject_def)

section \<open>Error texts\<close>

lemma byte_char_of_less: "r < 256 \<Longrightarrow> byte (char_of r) = r"
  by simp

lemma is_graph_ascii: "is_graph c \<Longrightarrow> byte c < 0x80"
  by (simp add: is_graph_def)

lemma encode_rune_ne [simp]: "encode_rune r \<noteq> []"
  by (simp add: encode_rune_def Let_def)

lemma copies_encode: "copies_visible encode_rune"
proof -
  have "encode_rune (byte c) = [c]" if "is_graph c" for c
    using is_graph_ascii [OF that] by (simp add: encode_rune_ascii byte_def)
  moreover have "list_all (\<lambda>c. \<not> is_graph c) (encode_rune r)"
    if "r < 0x80 \<longrightarrow> \<not> is_graph (char_of r)" for r
  proof (cases "r < 0x80")
    case True
    with that show ?thesis by (simp add: encode_rune_ascii)
  next
    case False
    then show ?thesis using encode_rune_not_ascii [of r] by (force simp: list_all_iff is_graph_def)
  qed
  ultimately show ?thesis by (simp add: copies_visible_def)
qed

lemma copies_blank: "copies_visible (\<lambda>r. encode_rune (blank_control r))"
proof -
  have "blank_control (byte c) = byte c" if "is_graph c" for c
    using that by (simp add: blank_control_def is_graph_def)
  moreover have "blank_control r < 0x80 \<longrightarrow> \<not> is_graph (char_of (blank_control r))"
    if "r < 0x80 \<longrightarrow> \<not> is_graph (char_of r)" for r
    using that by (auto simp: blank_control_def is_graph_def)
  ultimately show ?thesis
    using copies_encode by (simp add: copies_visible_def)
qed

lemma TrimSpace_sublist: "sublist (TrimSpace s) s"
proof -
  obtain p where p: "s = p @ strip_leading space_runes s" using strip_leading_suffix by blast
  let ?x = "strip_leading space_runes s"
  obtain q where "rev ?x = q @ strip_leading (map rev space_runes) (rev ?x)" using strip_leading_suffix by blast
  then have "?x = TrimSpace s @ rev q" unfolding TrimSpace_def by (metis rev_append rev_rev_ident)
  with p show ?thesis unfolding sublist_def by metis
qed

lemma Map_runes_blank: "Map_runes blank_control s = concat (map (\<lambda>r. encode_rune (blank_control r)) (runes s))"
  by (simp add: Map_runes_def string_of_runes_def comp_def)

lemma bounded_detail_sublist:
  assumes u: "list_all is_graph u" "u \<noteq> []" and occ: "sublist u (bounded_detail text)"
  shows "sublist u text"
proof -
  let ?t = "TrimSpace text" and ?m = "Map_runes blank_control (TrimSpace text)"
  have "sublist u ?m"
  proof (cases "500 < length (runes ?m)")
    case True
    then have "sublist u (string_of_runes (take 500 (runes ?m)) @ ellipsis)"
      using occ by (simp add: bounded_detail_def)
    moreover have "list_all (\<lambda>c. \<not> is_graph c) ellipsis"
      by (simp add: ellipsis_def is_graph_def)
    ultimately have "sublist u (string_of_runes (take 500 (runes ?m)))"
      using sublist_drop_tail u by blast
    then have "sublist u (concat (map encode_rune (take 500 (runes ?m))))"
      by (simp add: string_of_runes_def)
    then show ?thesis by (rule visible_sublist [OF copies_encode u])
  next
    case False
    with occ show ?thesis by (simp add: bounded_detail_def)
  qed
  then have "sublist u (concat (map (\<lambda>r. encode_rune (blank_control r)) (take (length (runes ?t)) (runes ?t))))"
    by (simp add: Map_runes_blank)
  then have "sublist u ?t" by (rule visible_sublist [OF copies_blank u])
  then show ?thesis using TrimSpace_sublist [of "text"] unfolding sublist_def by (metis append.assoc)
qed

lemma detail_from_source:
  "detail_from keys decoded = [] \<or> (\<exists>key text. map_of decoded key = Some (JString text) \<and>
     detail_from keys decoded = bounded_detail text)"
  by (induction keys decoded rule: detail_from.induct) (auto split: option.splits json.splits)

lemma runes_ascii: "r \<in> set (runes s) \<Longrightarrow> r < 0x80 \<Longrightarrow> char_of r \<in> set s"
proof (induction s rule: measure_induct_rule [of length])
  case (less s)
  show ?case
  proof (cases s)
    case Nil
    with less.prems show ?thesis by (simp add: runes.simps)
  next
    case (Cons c cs)
    show ?thesis
    proof (cases "byte c < 0x80")
      case True
      with less Cons show ?thesis by (auto simp: runes_Cons_ascii) (simp add: byte_def)
    next
      case False
      then obtain q k where "0x80 \<le> q" "runes s = q # runes (drop k cs)"
        using runes_Cons_other [of c cs] Cons by auto
      with less.prems less.IH [of "drop k cs"] Cons show ?thesis
        using set_drop_subset by fastforce
    qed
  qed
qed

lemma encode_blank_printable: "c \<in> set (encode_rune (blank_control r)) \<Longrightarrow> 0x20 \<le> byte c \<and> byte c \<noteq> 0x7F"
proof (cases "blank_control r < 0x80")
  case True
  assume "c \<in> set (encode_rune (blank_control r))"
  with True have "byte c = blank_control r" by (simp add: encode_rune_ascii)
  then show ?thesis by (auto simp: blank_control_def)
next
  case False
  assume "c \<in> set (encode_rune (blank_control r))"
  with False have "0x80 \<le> byte c" by (intro encode_rune_not_ascii [of "blank_control r"]) simp_all
  then show ?thesis by simp
qed

lemma bounded_detail_printable: "c \<in> set (bounded_detail text) \<Longrightarrow> 0x20 \<le> byte c \<and> byte c \<noteq> 0x7F"
proof -
  assume c: "c \<in> set (bounded_detail text)"
  let ?m = "Map_runes blank_control (TrimSpace text)"
  have m: "0x20 \<le> byte d \<and> byte d \<noteq> 0x7F" if "d \<in> set ?m" for d
    using that encode_blank_printable by (auto simp: Map_runes_blank)
  have "0x20 \<le> byte d \<and> byte d \<noteq> 0x7F" if "r \<in> set (runes ?m)" "d \<in> set (encode_rune r)" for r d
  proof (cases "r < 0x80")
    case True
    with that(2) have "d = char_of r" by (simp add: encode_rune_ascii)
    with m [OF runes_ascii [OF that(1) True]] show ?thesis by simp
  next
    case False
    with that(2) have "0x80 \<le> byte d" by (intro encode_rune_not_ascii [of r]) simp_all
    then show ?thesis by simp
  qed
  with c m show ?thesis
    by (auto simp: bounded_detail_def Let_def string_of_runes_def ellipsis_def dest: in_set_takeD split: if_splits)
qed

lemma bounded_detail_length: "length (bounded_detail text) \<le> 2003"
proof -
  let ?m = "Map_runes blank_control (TrimSpace text)"
  show ?thesis
  proof (cases "500 < length (runes ?m)")
    case True
    then show ?thesis using length_string_of_runes [of "take 500 (runes ?m)"]
      by (simp add: bounded_detail_def ellipsis_def)
  next
    case False
    with length_runes [of ?m] show ?thesis by (simp add: bounded_detail_def)
  qed
qed

lemma errorDetail_cases:
  obtains "errorDetail obj = []"
  | entries key t where "obj = Some entries" "map_of entries key = Some (JString t)"
      "errorDetail obj = bounded_detail t"
proof (cases obj)
  case (Some entries)
  then show ?thesis
    using detail_from_source [of "[''message'', ''error'', ''detail'']" entries] that
    by (auto simp: errorDetail_def)
qed (use that in \<open>simp add: errorDetail_def\<close>)

lemma errorDetail_bounds:
  "length (errorDetail obj) \<le> 2003 \<and> (\<forall>c\<in>set (errorDetail obj). 0x20 \<le> byte c \<and> byte c \<noteq> 0x7F)"
  by (rule errorDetail_cases [of obj]) (use bounded_detail_length bounded_detail_printable in auto)

lemma clean_text: "clean secret (JObject entries) \<Longrightarrow> map_of entries key = Some (JString text) \<Longrightarrow>
    secret \<noteq> [] \<Longrightarrow> \<not> sublist secret text"
  by (auto simp: clean_JObject dest!: map_of_SomeD)

lemma errorDetail_secret:
  assumes "list_all is_graph secret" "secret \<noteq> []" "redactable secret"
  shows "\<not> sublist secret (errorDetail (sanitizeObject obj secret))"
proof (rule errorDetail_cases [of "sanitizeObject obj secret"])
  fix entries key t
  assume o: "sanitizeObject obj secret = Some entries" "map_of entries key = Some (JString t)"
    and e: "errorDetail (sanitizeObject obj secret) = bounded_detail t"
  have "\<not> sublist secret t"
    using sanitizeObject_clean [OF assms(3) o(1)] o(2) assms(2) by (rule clean_text)
  with e assms bounded_detail_sublist show ?thesis by auto
qed (simp add: assms)

lemma sanitizeValue_well_keyed: "well_keyed v \<Longrightarrow> well_keyed (sanitizeValue secret v)"
proof (induction v)
  case (JObject entries)
  let ?es = "map (map_prod id (sanitizeValue secret)) entries"
  have "distinct (map fst ?es)" using JObject.prems by (simp add: well_keyed_JObject)
  moreover have "well_keyed (snd e)" if "e \<in> set ?es" for e
  proof -
    from that obtain f where f: "f \<in> set entries" "e = map_prod id (sanitizeValue secret) f" by auto
    then have "well_keyed (snd f)" using JObject.prems by (simp add: well_keyed_JObject)
    moreover have "snd f \<in> Basic_BNFs.snds f" by (cases f) (simp add: snds.simps)
    ultimately have "well_keyed (sanitizeValue secret (snd f))" using JObject.IH f(1) by blast
    then show ?thesis by (simp add: f(2))
  qed
  ultimately show ?case
    by (auto simp: well_keyed_JObject distinct_map_filter)
qed auto

lemma decodeObject_well_keyed: "decodeObject raw = Some entries \<Longrightarrow> well_keyed (JObject entries)"
  by (auto simp: decodeObject_def split: decode_step.splits json.splits dest: Decode_well_keyed)

lemma sanitizeObject_value:
  "sanitizeObject obj secret = Some cleaned \<longleftrightarrow>
     (\<exists>entries. obj = Some entries \<and> JObject cleaned = sanitizeValue secret (JObject entries))"
  by (cases obj) (auto simp: sanitizeObject_def)

section \<open>Properties\<close>

text \<open>A key, and two answers an API could give for it.\<close>

definition example_key :: string where "example_key = ''k-1''"

definition example_body :: string where "example_body = Marshal_list ''ips'' [''k-1'']"

definition example_error :: string where "example_error = Marshal_list ''detail'' [''k-1'']"

lemma example_key_facts:
  "redactable example_key" "list_all is_graph example_key" "example_key \<noteq> []"
  by code_simp+

lemma example_decoded: "decodeObject example_body = Some [(''ips'', JArray [JString ''k-1''])]"
proof -
  have "is_ascii ''ips''" "list_all is_ascii [''k-1'']" by code_simp+
  then show ?thesis
    by (simp add: decodeObject_def example_body_def Decode_Marshal_list) (simp add: Decode_def)
qed

lemma example_sanitized:
  "sanitizeObject (Some [(''ips'', JArray [JString ''k-1''])]) example_key =
     Some [(''ips'', JArray [JString ''[REDACTED]''])]"
proof -
  have "redact ''k-1'' ''k-1'' = ''[REDACTED]''"
    by (simp add: redact_def ReplaceAll.simps HasPrefix_def)
  moreover have "\<not> sensitiveKey ''ips''" by code_simp
  ultimately show ?thesis by (simp add: sanitizeObject_Some example_key_def)
qed

lemma example_body_length: "length example_body \<le> maxResponseBytes"
  by (simp add: example_body_def Marshal_list_def encode_string_def encode_text.simps encode_ascii_def byte_def
      quote_def backslash_def maxResponseBytes_def)







end
