(* ===== verification/Feed_Stream.thy ===== *)
theory Feed_Stream
  imports Sanitize "HOL-Library.List_Lexorder" "HOL-Library.Char_ord"
begin

text \<open>
  Component \<open>internal/synthient/feeds.go\<close>, the loop of \<open>SampleStream\<close>: reading an NDJSON body line by
  line, decoding and sanitising each event, filtering, and stopping at one of its four bounds. A body
  is the bytes that arrive before the reader ends, and how it ends. Filters are Go's map as a list of
  its entries; the code returns at the first entry that does not hold, so their order is irrelevant.
\<close>

section \<open>Scanning lines\<close>

definition maxStreamEventBytes :: nat where "maxStreamEventBytes = 256 * 2 ^ 10"
definition maxStreamReadBytes :: nat where "maxStreamReadBytes = 8 * 2 ^ 20"

definition dropCR :: "string \<Rightarrow> string" where
  "dropCR line = (if line \<noteq> [] \<and> last line = CHR 0x0D then butlast line else line)"

text \<open>
  \<open>bufio.Scanner\<close> with \<open>ScanLines\<close> and a buffer of at most \<open>maxStreamEventBytes\<close>: the tokens, and
  whether it gave up because the buffer was full without a newline in it. What is left when the
  reader ends is a token too, even when the reader ended with an error.
\<close>

function scan_lines :: "string \<Rightarrow> string list \<times> bool" where
  "scan_lines [] = ([], False)"
| "scan_lines (c # cs) =
     (let line = takeWhile (\<lambda>c. c \<noteq> CHR 0x0A) (c # cs)
      in if maxStreamEventBytes \<le> length line then ([], True)
         else (case drop (length line) (c # cs) of
                 [] \<Rightarrow> ([dropCR line], False)
               | _ # rest \<Rightarrow> apfst ((#) (dropCR line)) (scan_lines rest)))"
  by pat_completeness auto
termination
proof (relation "measure length", simp)
  fix c and cs line :: string and d rest
  assume "drop (length line) (c # cs) = d # rest"
  then have "length (d # rest) \<le> length (c # cs)" by (metis diff_le_self length_drop)
  then show "(rest, c # cs) \<in> measure length" by simp
qed

declare scan_lines.simps(2) [simp del]

section \<open>Filters\<close>

text \<open>\<open>fmt.Sprint\<close> of a decoded value; a map is printed in the order of its keys.\<close>

fun unwords :: "string list \<Rightarrow> string" where
  "unwords [] = []"
| "unwords [w] = w"
| "unwords (w # ws) = w @ '' '' @ unwords ws"

primrec Sprint :: "json \<Rightarrow> string" where
  "Sprint JNull = ''<nil>''"
| "Sprint (JBool b) = (if b then ''true'' else ''false'')"
| "Sprint (JNumber n) = n"
| "Sprint (JString s) = s"
| "Sprint (JArray items) = ''['' @ unwords (map Sprint items) @ '']''"
| "Sprint (JObject entries) =
     ''map['' @ unwords (map (\<lambda>(k, s). k @ '':'' @ s) (sort_key fst (map (map_prod id Sprint) entries))) @ '']''"

text \<open>The value a dotted path leads to; \<open>None\<close> where the code returns \<open>false\<close>.\<close>

fun field_at :: "json \<Rightarrow> string list \<Rightarrow> json option" where
  "field_at value [] = Some value"
| "field_at (JObject entries) (segment # segments) =
     (case map_of entries segment of None \<Rightarrow> None | Some item \<Rightarrow> field_at item segments)"
| "field_at value (segment # segments) = None"

text \<open>The nil map has no entries.\<close>

definition as_value :: "object option \<Rightarrow> json" where
  "as_value event = JObject (case event of None \<Rightarrow> [] | Some entries \<Rightarrow> entries)"

definition matchesFilters :: "object option \<Rightarrow> (string \<times> string) list \<Rightarrow> bool" where
  "matchesFilters event filters =
     list_all (\<lambda>(path, expected).
       case field_at (as_value event) (SplitByte CHR ''.'' path) of
         None \<Rightarrow> False
       | Some value \<Rightarrow> Sprint value = expected) filters"

section \<open>The sampling loop\<close>

datatype body_end = Eof | Canceled | DeadlineExceeded | Broken

datatype stream_error = DecodeEvent | ReadStream

record sample =
  Events :: "object option list"
  Truncated :: bool
  Failed :: "stream_error option"

text \<open>\<open>decoder.Decode(&event)\<close>: \<open>null\<close> leaves the map nil, what follows the first value is not read.\<close>

definition decode_event :: "string \<Rightarrow> object option option" where
  "decode_event line =
     (case Decode line of
        Decoded (JObject entries) rest \<Rightarrow> Some (Some entries)
      | Decoded JNull rest \<Rightarrow> Some None
      | _ \<Rightarrow> None)"

text \<open>The loop over \<open>scanner.Scan\<close>; \<open>None\<close> is the scanner running out.\<close>

fun collect ::
  "string \<Rightarrow> (string \<times> string) list \<Rightarrow> int \<Rightarrow> int \<Rightarrow> string list \<Rightarrow> nat \<Rightarrow> nat \<Rightarrow> object option list \<Rightarrow>
     object option list \<times> (bool \<times> stream_error option) option" where
  "collect secret filters count outputLimit [] readBytes outputBytes events = (events, None)"
| "collect secret filters count outputLimit (token # tokens) readBytes outputBytes events =
     (let line = TrimSpace token;
          readBytes = readBytes + length line
      in if maxStreamReadBytes < readBytes then (events, Some (True, None))
         else if line = [] then collect secret filters count outputLimit tokens readBytes outputBytes events
         else (case decode_event line of
                 None \<Rightarrow> (events, Some (False, Some DecodeEvent))
               | Some decoded \<Rightarrow>
                   let event = sanitizeObject decoded secret
                   in if \<not> matchesFilters event filters
                      then collect secret filters count outputLimit tokens readBytes outputBytes events
                      else if outputLimit < int (outputBytes + length line) then (events, Some (True, None))
                      else if count \<le> int (length (events @ [event])) then (events @ [event], Some (False, None))
                      else collect secret filters count outputLimit tokens readBytes
                             (outputBytes + length line) (events @ [event])))"

text \<open>The part of \<open>SampleStream\<close> after a 2xx answer.\<close>

definition sample_body ::
  "string \<Rightarrow> (string \<times> string) list \<Rightarrow> int \<Rightarrow> int \<Rightarrow> string \<Rightarrow> body_end \<Rightarrow> sample" where
  "sample_body secret filters count outputLimit body ending =
     (let (tokens, tooLong) = scan_lines body
      in case collect secret filters count outputLimit tokens 0 0 [] of
           (events, Some (truncated, err)) \<Rightarrow> \<lparr>Events = events, Truncated = truncated, Failed = err\<rparr>
         | (events, None) \<Rightarrow>
             \<lparr>Events = events, Truncated = False,
              Failed = (if tooLong \<or> ending = Broken then Some ReadStream else None)\<rparr>)"

section \<open>Paths and errors\<close>

definition feedPath :: "string \<Rightarrow> string list" where
  "feedPath stream =
     (if stream = ''honeypot_http'' then [''helio'', ''http'']
      else if stream = ''honeypot_https'' then [''helio'', ''https'']
      else if stream = ''honeypot_dns'' then [''helio'', ''dns'']
      else if stream = ''honeypot_adb'' then [''helio'', ''adb'']
      else [stream])"

definition streamError :: "int \<Rightarrow> object option \<Rightarrow> string" where
  "streamError code decoded =
     (let message = ''Synthient stream returned HTTP '' @ Itoa code;
          detail = errorDetail decoded
      in if detail \<noteq> [] then message @ '': '' @ detail else message)"

section \<open>What the loop should return\<close>

text \<open>A token the decoder accepts, blank tokens included.\<close>

definition decodes :: "string \<Rightarrow> bool" where
  "decodes token \<longleftrightarrow> TrimSpace token = [] \<or> decode_event (TrimSpace token) \<noteq> None"

text \<open>What a token contributes: nothing, or its text and the sanitised event, when it matches.\<close>

definition contribution ::
  "string \<Rightarrow> (string \<times> string) list \<Rightarrow> string \<Rightarrow> (string \<times> object option) list" where
  "contribution secret filters token =
     (let line = TrimSpace token
      in if line = [] then []
         else (case decode_event line of
                 None \<Rightarrow> []
               | Some decoded \<Rightarrow>
                   if matchesFilters (sanitizeObject decoded secret) filters
                   then [(line, sanitizeObject decoded secret)] else []))"

definition matching ::
  "string \<Rightarrow> (string \<times> string) list \<Rightarrow> string list \<Rightarrow> (string \<times> object option) list" where
  "matching secret filters tokens = concat (map (contribution secret filters) tokens)"

definition read_size :: "string list \<Rightarrow> nat" where
  "read_size tokens = sum_list (map (\<lambda>token. length (TrimSpace token)) tokens)"

definition output_size :: "string \<Rightarrow> (string \<times> string) list \<Rightarrow> string list \<Rightarrow> nat" where
  "output_size secret filters tokens = sum_list (map (\<lambda>(line, _). length line) (matching secret filters tokens))"

lemma matching_simps [simp]:
  "matching secret filters [] = []"
  "matching secret filters (token # tokens) =
     contribution secret filters token @ matching secret filters tokens"
  "matching secret filters (xs @ ys) = matching secret filters xs @ matching secret filters ys"
  by (simp_all add: matching_def)

lemma size_simps [simp]:
  "read_size [] = 0" "output_size secret filters [] = 0"
  "read_size (token # tokens) = length (TrimSpace token) + read_size tokens"
  "output_size secret filters (token # tokens) =
     sum_list (map (\<lambda>(line, _). length line) (contribution secret filters token)) +
     output_size secret filters tokens"
  by (simp_all add: read_size_def output_size_def)

text \<open>Why the loop stopped before the token \<open>post\<close> starts with.\<close>

fun stopped ::
  "string \<Rightarrow> (string \<times> string) list \<Rightarrow> int \<Rightarrow> int \<Rightarrow> string list \<Rightarrow> string list \<Rightarrow> object option list \<Rightarrow>
     (bool \<times> stream_error option) option \<Rightarrow> bool" where
  "stopped secret filters count outputLimit pre post events None = (post = [])"
| "stopped secret filters count outputLimit pre post events (Some (True, err)) =
     (err = None \<and> post \<noteq> [] \<and>
      (maxStreamReadBytes < read_size (pre @ [hd post]) \<or>
       outputLimit < int (output_size secret filters (pre @ [hd post]))))"
| "stopped secret filters count outputLimit pre post events (Some (False, None)) =
     (int (length events) = count)"
| "stopped secret filters count outputLimit pre post events (Some (False, Some err)) =
     (err = DecodeEvent \<and> post \<noteq> [] \<and> \<not> decodes (hd post))"

lemma collect_Cons:
  "collect secret filters count outputLimit (token # tokens) rb ob evs =
     (let rb' = rb + length (TrimSpace token)
      in if maxStreamReadBytes < rb' then (evs, Some (True, None))
         else if \<not> decodes token then (evs, Some (False, Some DecodeEvent))
         else (case contribution secret filters token of
                 [] \<Rightarrow> collect secret filters count outputLimit tokens rb' ob evs
               | (line, event) # _ \<Rightarrow>
                   if outputLimit < int (ob + length line) then (evs, Some (True, None))
                   else if count \<le> int (Suc (length evs)) then (evs @ [event], Some (False, None))
                   else collect secret filters count outputLimit tokens rb' (ob + length line) (evs @ [event])))"
  by (simp add: Let_def decodes_def contribution_def split: option.split)

declare collect.simps(2) [simp del]

lemma contribution_cases:
  obtains "contribution secret filters token = []"
  | line event where "contribution secret filters token = [(line, event)]"
proof -
  have "contribution secret filters token = [] \<or> (\<exists>line event. contribution secret filters token = [(line, event)])"
    by (simp add: contribution_def Let_def split: option.split)
  then show ?thesis using that by blast
qed

text \<open>The loop, from any point of a run, returns what it should.\<close>

lemma collect_spec:
  assumes "collect secret filters count outputLimit tokens (read_size seen) (output_size secret filters seen)
      (map snd (matching secret filters seen)) = (events, stop)"
    and "list_all decodes seen" "read_size seen \<le> maxStreamReadBytes"
    and "int (output_size secret filters seen) \<le> outputLimit"
    and "int (length (matching secret filters seen)) < count"
  shows "\<exists>pre post. seen @ tokens = pre @ post \<and> list_all decodes pre \<and>
    read_size pre \<le> maxStreamReadBytes \<and> int (output_size secret filters pre) \<le> outputLimit \<and>
    events = map snd (matching secret filters pre) \<and> int (length events) \<le> count \<and>
    stopped secret filters count outputLimit pre post events stop"
  using assms
proof (induction tokens arbitrary: seen)
  case Nil
  then have "seen @ [] = seen @ [] \<and> events = map snd (matching secret filters seen) \<and> stop = None" by simp
  with Nil show ?case by (intro exI [of _ seen] exI [of _ "[]"]) auto
next
  case (Cons token tokens)
  let ?more = "seen @ [token]"
  have sizes: "read_size ?more = read_size seen + length (TrimSpace token)"
    "output_size secret filters ?more = output_size secret filters seen +
       sum_list (map (\<lambda>(line, _). length line) (contribution secret filters token))"
    by (simp_all add: read_size_def output_size_def)
  have stay: ?case if "events = map snd (matching secret filters seen)"
    "stopped secret filters count outputLimit seen (token # tokens) events stop"
    using that Cons.prems by (intro exI [of _ seen] exI [of _ "token # tokens"]) auto
  have go: ?case if "collect secret filters count outputLimit tokens (read_size ?more)
      (output_size secret filters ?more) (map snd (matching secret filters ?more)) = (events, stop)"
    "decodes token" "read_size ?more \<le> maxStreamReadBytes"
    "int (output_size secret filters ?more) \<le> outputLimit"
    "int (length (matching secret filters ?more)) < count"
    using Cons.IH [OF that(1)] that Cons.prems by simp
  show ?case
  proof (cases "maxStreamReadBytes < read_size ?more \<or> \<not> decodes token")
    case True
    with Cons.prems sizes show ?thesis
      by (intro stay) (auto simp: collect_Cons Let_def split: if_splits)
  next
    case reads: False
    show ?thesis
    proof (cases rule: contribution_cases [of secret filters token])
      case 1
      with reads Cons.prems sizes show ?thesis by (intro go) (auto simp: collect_Cons Let_def)
    next
      case (2 line event)
      consider "outputLimit < int (output_size secret filters ?more)"
        | "int (output_size secret filters ?more) \<le> outputLimit" "count \<le> int (length (matching secret filters ?more))"
        | "int (output_size secret filters ?more) \<le> outputLimit" "int (length (matching secret filters ?more)) < count"
        by linarith
      then show ?thesis
      proof cases
        case 1
        with 2 reads Cons.prems sizes show ?thesis
          by (intro stay) (auto simp: collect_Cons Let_def)
      next
        case (2)
        with \<open>contribution secret filters token = [(line, event)]\<close> reads Cons.prems sizes
        have "events = map snd (matching secret filters ?more)" "stop = Some (False, None)"
          by (auto simp: collect_Cons Let_def)
        with 2 \<open>contribution secret filters token = [(line, event)]\<close> reads Cons.prems sizes
        show ?thesis by (intro exI [of _ ?more] exI [of _ tokens]) auto
      next
        case 3
        with 2 reads Cons.prems sizes show ?thesis by (intro go) (auto simp: collect_Cons Let_def)
      qed
    qed
  qed
qed

text \<open>When nothing stops it, the loop reads every token.\<close>

lemma collect_exhausts:
  "list_all decodes tokens \<Longrightarrow> rb + read_size tokens \<le> maxStreamReadBytes \<Longrightarrow>
     int (ob + output_size secret filters tokens) \<le> outputLimit \<Longrightarrow>
     int (length evs + length (matching secret filters tokens)) < count \<Longrightarrow>
   collect secret filters count outputLimit (tokens @ later) rb ob evs =
     collect secret filters count outputLimit later (rb + read_size tokens)
       (ob + output_size secret filters tokens) (evs @ map snd (matching secret filters tokens))"
proof (induction tokens arbitrary: rb ob evs)
  case (Cons token tokens)
  show ?case
    by (cases rule: contribution_cases [of secret filters token])
      (use Cons in \<open>simp_all add: collect_Cons Let_def add.assoc\<close>)
qed simp

section \<open>Lines\<close>

text \<open>A body of newline-terminated lines and a last, unterminated part.\<close>

definition ndjson :: "string list \<Rightarrow> string \<Rightarrow> string" where
  "ndjson lines part = concat (map (\<lambda>line. line @ [CHR 0x0A]) lines) @ part"

definition short_line :: "string \<Rightarrow> bool" where
  "short_line line \<longleftrightarrow> CHR 0x0A \<notin> set line \<and> length line < maxStreamEventBytes"

lemma takeWhile_newline: "CHR 0x0A \<notin> set line \<Longrightarrow>
    takeWhile (\<lambda>c. c \<noteq> CHR 0x0A) (line @ CHR 0x0A # rest) = line \<and>
    takeWhile (\<lambda>c. c \<noteq> CHR 0x0A) line = line"
  by (subst takeWhile_append2) (auto simp: takeWhile_eq_all_conv)

lemma scan_lines_newline:
  assumes "short_line line"
  shows "scan_lines (line @ CHR 0x0A # rest) = apfst ((#) (dropCR line)) (scan_lines rest)"
proof -
  obtain c cs where c: "line @ CHR 0x0A # rest = c # cs" by (cases line) auto
  have "takeWhile (\<lambda>c. c \<noteq> CHR 0x0A) (c # cs) = line"
    using takeWhile_newline assms unfolding c [symmetric] by (auto simp: short_line_def)
  moreover have "drop (length line) (c # cs) = CHR 0x0A # rest"
    unfolding c [symmetric] by simp
  ultimately show ?thesis
    unfolding c using assms by (simp add: scan_lines.simps(2) short_line_def)
qed

lemma scan_lines_last:
  assumes "short_line line" "line \<noteq> []"
  shows "scan_lines line = ([dropCR line], False)"
proof -
  obtain c cs where c: "line = c # cs" using assms(2) by (cases line) auto
  have "takeWhile (\<lambda>c. c \<noteq> CHR 0x0A) line = line"
    using takeWhile_newline assms(1) by (auto simp: short_line_def)
  then show ?thesis using assms(1) unfolding c by (simp add: scan_lines.simps(2) short_line_def)
qed

lemma scan_lines_ndjson:
  "list_all short_line lines \<Longrightarrow> short_line part \<Longrightarrow>
     scan_lines (ndjson lines part) =
       (map dropCR lines @ (if part = [] then [] else [dropCR part]), False)"
proof (induction lines)
  case Nil
  then show ?case by (cases "part = []") (simp_all add: ndjson_def scan_lines_last)
next
  case (Cons line lines)
  have "ndjson (line # lines) part = line @ CHR 0x0A # ndjson lines part" by (simp add: ndjson_def)
  with Cons show ?case by (simp add: scan_lines_newline)
qed

text \<open>No token is longer than the scanner's buffer.\<close>

lemma length_dropCR: "length (dropCR line) \<le> length line"
  by (simp add: dropCR_def)

lemma scan_lines_short: "token \<in> set (fst (scan_lines body)) \<Longrightarrow> length token < maxStreamEventBytes"
proof (induction body rule: scan_lines.induct)
  case (2 c cs)
  let ?line = "takeWhile (\<lambda>c. c \<noteq> CHR 0x0A) (c # cs)"
  show ?case
  proof (cases "maxStreamEventBytes \<le> length ?line")
    case True
    with 2 show ?thesis by (simp add: scan_lines.simps(2))
  next
    case False
    then have short: "length (dropCR ?line) < maxStreamEventBytes"
      using length_dropCR [of ?line] by linarith
    show ?thesis
    proof (cases "drop (length ?line) (c # cs)")
      case Nil
      with 2 False short show ?thesis by (simp add: scan_lines.simps(2) del: takeWhile.simps)
    next
      case (Cons d rest)
      then have "token = dropCR ?line \<or> token \<in> set (fst (scan_lines rest))"
        using 2 False by (simp add: scan_lines.simps(2) del: takeWhile.simps) 
      with 2 False short Cons show ?thesis by blast
    qed
  qed
qed simp

section \<open>Properties\<close>

lemma TrimSpace_length: "length (TrimSpace s) \<le> length s"
  using TrimSpace_sublist by (rule sublist_length_le)

lemma matching_event:
  "event \<in> set (map snd (matching secret filters tokens)) \<Longrightarrow>
     matchesFilters event filters \<and> (\<exists>decoded. event = sanitizeObject decoded secret)"
  by (auto simp: matching_def contribution_def Let_def split: if_splits option.splits)

lemma as_value_clean: "redactable secret \<Longrightarrow> clean secret (as_value (sanitizeObject decoded secret))"
proof (cases "sanitizeObject decoded secret")
  case None
  then show ?thesis by (simp add: as_value_def clean_JObject)
next
  case (Some entries)
  then show "redactable secret \<Longrightarrow> ?thesis" using sanitizeObject_clean by (simp add: as_value_def)
qed

lemma sample_body_spec:
  assumes "0 < count" "0 \<le> outputLimit"
  shows "\<exists>pre post stop. fst (scan_lines body) = pre @ post \<and> list_all decodes pre \<and>
    read_size pre \<le> maxStreamReadBytes \<and> int (output_size secret filters pre) \<le> outputLimit \<and>
    Events (sample_body secret filters count outputLimit body ending) = map snd (matching secret filters pre) \<and>
    int (length (matching secret filters pre)) \<le> count \<and>
    stopped secret filters count outputLimit pre post (map snd (matching secret filters pre)) stop \<and>
    Truncated (sample_body secret filters count outputLimit body ending) =
      (case stop of Some (truncated, _) \<Rightarrow> truncated | None \<Rightarrow> False) \<and>
    Failed (sample_body secret filters count outputLimit body ending) =
      (case stop of Some (_, err) \<Rightarrow> err
       | None \<Rightarrow> if snd (scan_lines body) \<or> ending = Broken then Some ReadStream else None)"
proof -
  obtain events stop where c:
    "collect secret filters count outputLimit (fst (scan_lines body)) 0 0 [] = (events, stop)"
    by (cases "collect secret filters count outputLimit (fst (scan_lines body)) 0 0 []") auto
  then obtain pre post where "fst (scan_lines body) = pre @ post" "list_all decodes pre"
    "read_size pre \<le> maxStreamReadBytes" "int (output_size secret filters pre) \<le> outputLimit"
    "events = map snd (matching secret filters pre)" "int (length events) \<le> count"
    "stopped secret filters count outputLimit pre post events stop"
    using collect_spec [of secret filters count outputLimit "fst (scan_lines body)" "[]" events stop] assms
    by auto
  moreover have "sample_body secret filters count outputLimit body ending =
      (case stop of
         Some (truncated, err) \<Rightarrow> \<lparr>Events = events, Truncated = truncated, Failed = err\<rparr>
       | None \<Rightarrow> \<lparr>Events = events, Truncated = False,
           Failed = (if snd (scan_lines body) \<or> ending = Broken then Some ReadStream else None)\<rparr>)"
    using c by (cases "scan_lines body") (simp add: sample_body_def)
  ultimately show ?thesis
    by (intro exI [of _ pre] exI [of _ post] exI [of _ stop]) (simp split: option.splits)
qed

text \<open>A line an upstream could send, and a filter it passes.\<close>

definition example_line :: string where
  "example_line = CHR ''{'' # quote # ''n'' @ quote # '':1}''"

lemma next_token_brace:
  "next_token (CHR ''{'' # s) = Token OpenObject s" "next_token (CHR ''}'' # s) = Token CloseObject s"
  "next_token (CHR '':'' # s) = Token Colon s"
  by (simp_all add: next_token_punctuation punctuation_def)

lemma next_token_example:
  "next_token (quote # ''n'' @ quote # s) = Token (Scalar (JString ''n'')) s"
  "next_token (CHR ''1'' # CHR ''}'' # s) = Token (Scalar (JNumber ''1'')) (CHR ''}'' # s)"
proof -
  have "encode_string ''n'' = quote # ''n'' @ [quote]" by code_simp
  moreover have "is_ascii ''n''" by code_simp
  ultimately show "next_token (quote # ''n'' @ quote # s) = Token (Scalar (JString ''n'')) s"
    using next_token_quote [of "''n''" s] by simp
  show "next_token (CHR ''1'' # CHR ''}'' # s) = Token (Scalar (JNumber ''1'')) (CHR ''}'' # s)"
    by (simp add: next_token_def is_json_space_def byte_def punctuation_def quote_def is_digit_def read_number_def
        read_integer_def read_digits_def read_fraction_def read_exponent_def HasPrefix_def Let_def)
qed

lemma example_line_decoded: "Decode example_line = Decoded (JObject [(''n'', JNumber ''1'')]) []"
proof -
  have "\<not> list_all is_json_space example_line" by (simp add: example_line_def is_json_space_def byte_def)
  then show ?thesis
    by (simp add: Decode_def example_line_def parse_token [OF next_token_brace(1)] parse_token [OF next_token_brace(2)]
        parse_token [OF next_token_brace(3)] parse_token [OF next_token_example(1), simplified]
        parse_token [OF next_token_example(2)] push_def maxNestingDepth_def) (simp add: parse.simps)
qed

lemma example_line_graph: "list_all is_graph example_line"
  by code_simp

lemma example_line_matches:
  "contribution example_key [(''n'', ''1'')] example_line = [(example_line, Some [(''n'', JNumber ''1'')])]"
proof -
  have "TrimSpace example_line = example_line" "example_line \<noteq> []"
    using TrimSpace_graph [OF example_line_graph] by (simp_all add: example_line_def)
  moreover have "\<not> sensitiveKey ''n''" by code_simp
  ultimately show ?thesis
    by (simp add: contribution_def decode_event_def example_line_decoded sanitizeObject_Some matchesFilters_def as_value_def)
qed

text \<open>C8: A live sample never exceeds its bounds: at most the requested number of events, taken in
  order from a prefix of the lines whose bytes stay within 8 MiB and whose returned lines stay within
  the output limit; every event passes every filter, and is clean for a redactable key.\<close>

theorem sample_bounded:
  assumes "0 < count" "0 \<le> outputLimit"
  shows "int (length (Events (sample_body secret filters count outputLimit body ending))) \<le> count \<and>
    (\<exists>n. read_size (take n (fst (scan_lines body))) \<le> maxStreamReadBytes \<and>
       int (output_size secret filters (take n (fst (scan_lines body)))) \<le> outputLimit \<and>
       Events (sample_body secret filters count outputLimit body ending) =
         map snd (matching secret filters (take n (fst (scan_lines body))))) \<and>
    (\<forall>event\<in>set (Events (sample_body secret filters count outputLimit body ending)).
       matchesFilters event filters \<and> (redactable secret \<longrightarrow> clean secret (as_value event)))"
proof -
  obtain pre post where p: "fst (scan_lines body) = pre @ post" "read_size pre \<le> maxStreamReadBytes"
    "int (output_size secret filters pre) \<le> outputLimit"
    "Events (sample_body secret filters count outputLimit body ending) = map snd (matching secret filters pre)"
    "int (length (matching secret filters pre)) \<le> count"
    using sample_body_spec [OF assms, of body secret filters ending] by blast
  have "matchesFilters event filters \<and> (redactable secret \<longrightarrow> clean secret (as_value event))"
    if "event \<in> set (map snd (matching secret filters pre))" for event
    using matching_event [OF that] as_value_clean by blast
  with p show ?thesis by (auto intro!: exI [of _ "length pre"])
qed

theorem sample_bounded_witness:
  "int (length (Events (sample_body example_key [(''n'', ''1'')] 2 100 (ndjson [example_line, example_line] []) Eof))) \<le> 2"
  using sample_bounded [of 2 100 example_key "[(''n'', ''1'')]" "ndjson [example_line, example_line] []" Eof] by simp

text \<open>C7: The sampling loop implements its specification: what it returns are the sanitised matching
  events of the longest admissible prefix of the lines, in order, and it stops for one of four
  reasons: the lines are used up (then only an over-long line or a broken reader is an error), the
  requested count is reached, the next line would exceed the read or the output bound (the only case
  that is reported as truncated), or the next line is not an object.\<close>

theorem sample_refines:
  assumes "0 < count" "0 \<le> outputLimit"
  shows "\<exists>pre post stop. fst (scan_lines body) = pre @ post \<and> list_all decodes pre \<and>
    Events (sample_body secret filters count outputLimit body ending) = map snd (matching secret filters pre) \<and>
    stopped secret filters count outputLimit pre post (map snd (matching secret filters pre)) stop \<and>
    Truncated (sample_body secret filters count outputLimit body ending) =
      (case stop of Some (truncated, _) \<Rightarrow> truncated | None \<Rightarrow> False) \<and>
    Failed (sample_body secret filters count outputLimit body ending) =
      (case stop of Some (_, err) \<Rightarrow> err
       | None \<Rightarrow> if snd (scan_lines body) \<or> ending = Broken then Some ReadStream else None)"
  using sample_body_spec [OF assms] by meson

theorem sample_refines_witness:
  "\<exists>pre post stop. fst (scan_lines (ndjson [example_line] [])) = pre @ post \<and>
     Events (sample_body example_key [] 5 100 (ndjson [example_line] []) Eof) =
       map snd (matching example_key [] pre) \<and>
     stopped example_key [] 5 100 pre post (map snd (matching example_key [] pre)) stop"
  using sample_refines [of 5 100 "ndjson [example_line] []" example_key "[]" Eof] by auto


lemma example_part: "\<not> decodes (dropCR (take 3 example_line))" "short_line (take 3 example_line)" "short_line example_line"
proof -
  have "dropCR (take 3 example_line) = take 3 example_line"
    by (simp add: dropCR_def example_line_def quote_def numeral_3_eq_3)
  moreover have "list_all is_graph (take 3 example_line)" by code_simp
  moreover have "Decode (take 3 example_line) = Malformed"
  proof -
    have t: "take 3 example_line = CHR ''{'' # quote # ''n''" by (simp add: example_line_def numeral_3_eq_3)
    have "read_string ''n'' = None"
      by (simp add: read_string.simps quote_def backslash_def byte_def decode_rune_def)
    then have "next_token (quote # ''n'') = BadToken"
      by (simp add: next_token_def is_json_space_def byte_def punctuation_def quote_def)
    then have "parse (FObject [] [] # []) (WantKey True) (quote # ''n'') = Malformed"
      by (simp add: parse.simps)
    moreover have "\<not> list_all is_json_space (take 3 example_line)"
      by (simp add: t is_json_space_def byte_def)
    ultimately show ?thesis
      by (simp add: Decode_def t parse_token [OF next_token_brace(1)] push_def maxNestingDepth_def)
  qed
  ultimately show "\<not> decodes (dropCR (take 3 example_line))"
    by (simp add: decodes_def decode_event_def TrimSpace_graph) (simp add: example_line_def)
  show "short_line (take 3 example_line)" "short_line example_line"
    by (simp_all add: short_line_def example_line_def quote_def maxStreamEventBytes_def numeral_3_eq_3)
qed


end
