(* ===== verification/Sdk.thy ===== *)
theory Sdk
  imports Sanitize
begin

text \<open>
  The types of \<open>synthientsdk\<close> that the tools and the client exchange, reduced to the fields the program
  reads, and the errors a call to the API can end with.
\<close>

text \<open>An error of the SDK, of the network or of a check, by its text; or an answer that was refused.\<close>

datatype upstream_error = Failure string | Api APIError

text \<open>The fields of the SDK's types that the program reads.\<close>

record Organization =
  OrgName :: string

record LookupQuota =
  Credits :: int
  ResetsIn :: int

record Account =
  FirstName :: string
  LastName :: string
  Email :: string
  OrganizationOf :: Organization
  Quota :: LookupQuota

record IP =
  IPText :: string
  RiskScore :: int
  Asn :: int
  Country :: string

record Domain =
  DomainName :: string
  DomainStatus :: string
  Events24H :: int
  UniqueIPs24H :: int

record FeedSnapshotsPage =
  Feeds :: "object list"
  NextCursor :: string

record FeedSnapshotMeta =
  MetaID :: string
  Rows :: int
  Size :: int
  Checksum :: string

record MethodDescriptor =
  MethodName :: string
  InputType :: string
  OutputType :: string

record ServiceDescriptor =
  ServiceName :: string
  ServiceMethods :: "MethodDescriptor list"

record FileDescriptor =
  FileName :: string
  FilePackage :: string
  FileServices :: "ServiceDescriptor list"

record GRPCSchemaResult =
  SchemaEndpoint :: string
  SchemaSymbols :: "string list"
  DescriptorSet :: "FileDescriptor list option"

end
