(* ===== verification/Tool_Api.thy ===== *)
theory Tool_Api
  imports Sdk
begin

text \<open>
  The interface \<open>mcpserver.API\<close>: what the tools ask of a client. Every operation is an action on a
  world \<open>'w\<close> that the tools do not look into; the two that the tools run under a deadline of their own
  take it, in seconds, as their first argument. The locale \<open>api_contract\<close> is what a client promises: each
  operation keeps an invariant of the world and makes at most one exchange.
\<close>

record 'w API =
  AccountOp :: "('w, upstream_error, Account) action"
  LookupIPOp :: "string \<Rightarrow> ('w, upstream_error, IP) action"
  LookupIPsOp :: "string list \<Rightarrow> ('w, upstream_error, IP list) action"
  LookupDomainOp :: "string \<Rightarrow> ('w, upstream_error, Domain) action"
  FeedSnapshotsOp :: "string \<Rightarrow> int \<Rightarrow> string \<Rightarrow> ('w, upstream_error, FeedSnapshotsPage) action"
  FeedSnapshotMetaOp :: "string \<Rightarrow> string list \<Rightarrow> ('w, upstream_error, FeedSnapshotMeta) action"
  SampleStreamOp ::
    "int \<Rightarrow> string \<Rightarrow> int \<Rightarrow> int \<Rightarrow> (string \<times> string) list \<Rightarrow> ('w, upstream_error, object option list \<times> bool) action"
  GRPCSchemaOp :: "int \<Rightarrow> string list \<Rightarrow> ('w, upstream_error, GRPCSchemaResult) action"

text \<open>An action that keeps \<open>ok\<close> and takes at most one unit of \<open>spent\<close>.\<close>

definition behaves :: "('w \<Rightarrow> bool) \<Rightarrow> ('w \<Rightarrow> nat) \<Rightarrow> ('w \<Rightarrow> 'r \<times> 'w) \<Rightarrow> bool" where
  "behaves ok spent act \<longleftrightarrow>
     (\<forall>w. (ok w \<longrightarrow> ok (snd (act w))) \<and> spent (snd (act w)) \<le> Suc (spent w))"

locale api_contract =
  fixes api :: "'w API" and ok :: "'w \<Rightarrow> bool" and spent :: "'w \<Rightarrow> nat"
  assumes account: "behaves ok spent (AccountOp api)"
    and lookup_ip: "behaves ok spent (LookupIPOp api ip)"
    and lookup_ips: "behaves ok spent (LookupIPsOp api ips)"
    and lookup_domain: "behaves ok spent (LookupDomainOp api domain)"
    and snapshots: "behaves ok spent (FeedSnapshotsOp api stream limit cursor)"
    and snapshot_meta: "behaves ok spent (FeedSnapshotMetaOp api stream snapshot)"
    and sample: "behaves ok spent (SampleStreamOp api deadline stream count outputLimit filters)"
    and schema: "behaves ok spent (GRPCSchemaOp api deadline symbols)"
begin

lemmas operations = account lookup_ip lookup_ips lookup_domain snapshots snapshot_meta sample schema

end

lemma behaves_finish: "behaves ok spent act \<Longrightarrow> behaves ok spent (attempt_in act (\<lambda>x. give (f x)))"
  by (simp add: behaves_def attempt_in_finish)

lemma behaves_give: "behaves ok spent (give r)"
  by (simp add: behaves_def)

end
