(* ===== verification/Upstream.thy ===== *)
theory Upstream
  imports Go_Path Go_Http Feed_Stream Telemetry Tool_Api
begin

text \<open>
  Component \<open>internal/synthient\<close> (\<open>client.go\<close>, \<open>feeds.go\<close>): the client that carries a caller's key to
  the Synthient API. The network is the argument \<open>network\<close>: what answers a request may depend on
  every exchange before it. The SDK's gRPC reflection client and the decoding of a JSON object into
  one of the SDK's types are arguments too. A world holds the exchanges so far and the telemetry;
  every operation is an action on it.
\<close>

section \<open>The world of a client\<close>

text \<open>\<open>HTTPDoer\<close>: whether it is an \<open>*http.Client\<close>, whether it follows redirects, and its timeout.\<close>

record doer =
  standard :: bool
  followsRedirects :: bool
  clientTimeout :: int

record outgoing =
  OutMethod :: string
  Target :: string
  OutHeader :: Header
  OutBody :: "string option"
  Deadline :: "int option"

datatype exchange =
    Exchange doer outgoing
  | Reflection string string "string list" int

text \<open>No answer, or a status, the \<open>Retry-After\<close> header, a body and how it ends; and the time taken.\<close>

datatype answer =
    NoAnswer "64 word"
  | Answered int string string body_end "64 word"

record world =
  Sent :: "exchange list"
  Stats :: telemetry

record Client =
  baseURL :: "URL option"
  apiKey :: string
  forwardedFor :: string
  grpcEndpoint :: string
  httpClient :: "doer option"
  observed :: bool

text \<open>What lies outside the repository.\<close>

record runtime =
  lib :: golib
  version :: string
  network :: "exchange list \<Rightarrow> doer \<Rightarrow> outgoing \<Rightarrow> answer"
  reflect :: "exchange list \<Rightarrow> string \<Rightarrow> string \<Rightarrow> string list \<Rightarrow> (string, GRPCSchemaResult) result"
  asAccount :: "object \<Rightarrow> Account option"
  asIP :: "object \<Rightarrow> IP option"
  asIPs :: "object \<Rightarrow> IP list option"
  asDomain :: "object \<Rightarrow> Domain option"
  asPage :: "object \<Rightarrow> FeedSnapshotsPage option"
  asMeta :: "object \<Rightarrow> FeedSnapshotMeta option"

section \<open>Making a client\<close>

definition UserAgent :: "string \<Rightarrow> string" where
  "UserAgent v =
     (let v = TrimSpace v in ''synthient-mcp-go/'' @ (if v = [] then ''dev'' else v))"

definition NewClient :: "URL option \<Rightarrow> string \<Rightarrow> string \<Rightarrow> doer option \<Rightarrow> bool \<Rightarrow> Client" where
  "NewClient base key forwarded client observers =
     \<lparr>baseURL = base, apiKey = key, forwardedFor = forwarded, grpcEndpoint = [],
      httpClient = map_option (\<lambda>d. if standard d then d\<lparr>followsRedirects := False\<rparr> else d) client,
      observed = observers\<rparr>"

definition WithGRPCEndpoint :: "string \<Rightarrow> Client \<Rightarrow> Client" where
  "WithGRPCEndpoint endpoint c = c\<lparr>grpcEndpoint := TrimSpace endpoint\<rparr>"

section \<open>Request URLs\<close>

text \<open>The loop over the segments, and the check that the result is still below the base URL.\<close>

fun join_segments :: "URL \<Rightarrow> string list \<Rightarrow> (upstream_error, URL) result" where
  "join_segments u [] = Inr u"
| "join_segments u (segment # segments) =
     (if segment = [] then Inl (Failure ''synthient API path segment cannot be empty'')
      else join_segments (JoinPath u (PathEscape segment)) segments)"

definition basePrefix :: "URL \<Rightarrow> string" where
  "basePrefix base = TrimSuffix (EscapedPath base) ''/'' @ ''/''"

definition path_endpoint :: "URL \<Rightarrow> string list \<Rightarrow> (upstream_error, URL) result" where
  "path_endpoint base segments =
     attempt (join_segments (base\<lparr>Path := TrimSuffix (Path base) ''/''\<rparr>) segments) (\<lambda>u.
       if Scheme u \<noteq> Scheme base \<or> HostPort u \<noteq> HostPort base \<or> \<not> HasPrefix (EscapedPath u) (basePrefix base)
       then Inl (Failure ''synthient API path escaped the configured endpoint'')
       else Inr u)"

section \<open>Requests\<close>

definition observe :: "Client \<Rightarrow> int \<Rightarrow> 64 word \<Rightarrow> world \<Rightarrow> world" where
  "observe c code elapsed w =
     (if observed c then w\<lparr>Stats := ObserveUpstream code elapsed (Stats w)\<rparr> else w)"

definition Do :: "runtime \<Rightarrow> doer \<Rightarrow> outgoing \<Rightarrow> world \<Rightarrow> answer \<times> world" where
  "Do R d request w = (network R (Sent w) d request, w\<lparr>Sent := Sent w @ [Exchange d request]\<rparr>)"

definition set_forwarded :: "Client \<Rightarrow> Header \<Rightarrow> Header" where
  "set_forwarded c h = (if forwardedFor c \<noteq> [] then SetHeader ''X-Forwarded-For'' (forwardedFor c) h else h)"

definition request_header :: "runtime \<Rightarrow> Client \<Rightarrow> string option \<Rightarrow> Header" where
  "request_header R c payload =
     (let h = SetHeader ''Accept'' ''application/json'' no_header;
          h = SetHeader ''User-Agent'' (UserAgent (version R)) h;
          h = set_forwarded c (SetHeader ''X-API-Key'' (apiKey c) h)
      in if payload \<noteq> None then SetHeader ''Content-Type'' ''application/json'' h else h)"

text \<open>\<open>io.ReadAll(io.LimitReader(body, maxResponseBytes+1))\<close>: a broken body is an error unless the limit came first.\<close>

definition read_limited :: "string \<Rightarrow> body_end \<Rightarrow> string option" where
  "read_limited raw ending =
     (if length raw \<le> maxResponseBytes \<and> ending \<noteq> Eof then None else Some (take (maxResponseBytes + 1) raw))"

definition requestQuery ::
  "runtime \<Rightarrow> Client \<Rightarrow> string \<Rightarrow> string list \<Rightarrow> (string \<times> string) list \<Rightarrow> string option \<Rightarrow>
     (world, upstream_error, object) action" where
  "requestQuery R c method segments query payload w =
     (case (baseURL c, httpClient c) of
        (None, _) \<Rightarrow> (Inl (Failure ''synthient API base URL is not configured''), w)
      | (Some base, None) \<Rightarrow> (Inl (Failure ''synthient HTTP client is not configured''), w)
      | (Some base, Some d) \<Rightarrow>
          (case path_endpoint base segments of
             Inl e \<Rightarrow> (Inl e, w)
           | Inr u \<Rightarrow>
               let target = URL_String (u\<lparr>RawQuery := Encode query\<rparr>)
               in if urlParse (lib R) target = None then (Inl (Failure ''create request''), w)
                  else
                    (case Do R d \<lparr>OutMethod = method, Target = target, OutHeader = request_header R c payload,
                               OutBody = payload, Deadline = None\<rparr> w of
                       (NoAnswer elapsed, w) \<Rightarrow>
                         (Inl (Failure ''synthient API request failed''), observe c 0 elapsed w)
                     | (Answered code retryAfter raw ending elapsed, w) \<Rightarrow>
                         (case read_limited raw ending of
                            None \<Rightarrow> Inl (Failure ''read Synthient response'')
                          | Some raw \<Rightarrow> map_sum Api id (handle_response (apiKey c) code retryAfter raw),
                          observe c code elapsed w))))"

text \<open>\<open>requestAs\<close> and \<open>requestAsQuery\<close>: the object re-encoded and decoded into a type of the SDK.\<close>

definition contract_mismatch :: APIError where
  "contract_mismatch =
     \<lparr>Status = 502, RetryAfter = [], ErrMessage = ''Synthient API response did not match the expected contract''\<rparr>"

definition requestAsQuery ::
  "(object \<Rightarrow> 'a option) \<Rightarrow> runtime \<Rightarrow> Client \<Rightarrow> string \<Rightarrow> string list \<Rightarrow> (string \<times> string) list \<Rightarrow>
     string option \<Rightarrow> (world, upstream_error, 'a) action" where
  "requestAsQuery typed R c method segments query payload =
     attempt_in (requestQuery R c method segments query payload) (\<lambda>value.
       give (case typed value of Some x \<Rightarrow> Inr x | None \<Rightarrow> Inl (Api contract_mismatch)))"

definition requestAs ::
  "(object \<Rightarrow> 'a option) \<Rightarrow> runtime \<Rightarrow> Client \<Rightarrow> string \<Rightarrow> string list \<Rightarrow> string option \<Rightarrow>
     (world, upstream_error, 'a) action" where
  "requestAs typed R c method segments payload = requestAsQuery typed R c method segments [] payload"

section \<open>The operations\<close>

definition Client_Account :: "runtime \<Rightarrow> Client \<Rightarrow> (world, upstream_error, Account) action" where
  "Client_Account R c = requestAs (asAccount R) R c ''GET'' [''account'', ''me''] None"

definition Client_LookupIP :: "runtime \<Rightarrow> Client \<Rightarrow> string \<Rightarrow> (world, upstream_error, IP) action" where
  "Client_LookupIP R c ip = requestAs (asIP R) R c ''GET'' [''lookup'', ''ip'', ip] None"

definition Client_LookupIPs :: "runtime \<Rightarrow> Client \<Rightarrow> string list \<Rightarrow> (world, upstream_error, IP list) action" where
  "Client_LookupIPs R c ips =
     requestAs (asIPs R) R c ''POST'' [''lookup'', ''ips''] (Some (Marshal_list ''ips'' ips))"

definition Client_LookupDomain :: "runtime \<Rightarrow> Client \<Rightarrow> string \<Rightarrow> (world, upstream_error, Domain) action" where
  "Client_LookupDomain R c domain = requestAs (asDomain R) R c ''GET'' [''lookup'', ''domain'', domain] None"

definition Client_FeedSnapshots ::
  "runtime \<Rightarrow> Client \<Rightarrow> string \<Rightarrow> int \<Rightarrow> string \<Rightarrow> (world, upstream_error, FeedSnapshotsPage) action" where
  "Client_FeedSnapshots R c stream limit cursor =
     requestAsQuery (asPage R) R c ''GET'' (''feeds'' # feedPath stream @ [''export''])
       ((if cursor \<noteq> [] then [(''cursor'', cursor)] else []) @ (if 0 < limit then [(''limit'', Itoa limit)] else []))
       None"

definition Client_FeedSnapshotMeta ::
  "runtime \<Rightarrow> Client \<Rightarrow> string \<Rightarrow> string list \<Rightarrow> (world, upstream_error, FeedSnapshotMeta) action" where
  "Client_FeedSnapshotMeta R c stream snapshot =
     requestAs (asMeta R) R c ''GET'' (''feeds'' # feedPath stream @ [''export''] @ snapshot @ [''meta'']) None"

definition Client_GRPCSchema ::
  "runtime \<Rightarrow> Client \<Rightarrow> int \<Rightarrow> string list \<Rightarrow> (world, upstream_error, GRPCSchemaResult) action" where
  "Client_GRPCSchema R c deadline symbols w =
     (map_sum Failure id (reflect R (Sent w) (apiKey c) (grpcEndpoint c) symbols),
      w\<lparr>Sent := Sent w @ [Reflection (apiKey c) (grpcEndpoint c) symbols deadline]\<rparr>)"

text \<open>\<open>newRequest\<close>, which \<open>SampleStream\<close> uses: the doer and the request.\<close>

definition newRequest ::
  "runtime \<Rightarrow> Client \<Rightarrow> int option \<Rightarrow> string \<Rightarrow> string list \<Rightarrow> (upstream_error, doer \<times> outgoing) result" where
  "newRequest R c deadline method segments =
     (case (baseURL c, httpClient c) of
        (Some base, Some d) \<Rightarrow>
          attempt (path_endpoint base segments) (\<lambda>u.
            if urlParse (lib R) (URL_String u) = None then Inl (Failure ''create Synthient request'')
            else Inr (d, \<lparr>OutMethod = method, Target = URL_String u,
                          OutHeader = set_forwarded c (SetHeader ''X-API-Key'' (apiKey c)
                            (SetHeader ''Accept'' ''application/x-ndjson, application/json'' no_header)),
                          OutBody = None, Deadline = deadline\<rparr>))
      | _ \<Rightarrow> Inl (Failure ''synthient API client is not configured''))"

text \<open>\<open>readBounded\<close>: the error is not looked at.\<close>

definition readBounded :: "string \<Rightarrow> nat \<Rightarrow> string" where
  "readBounded raw limit = take limit raw"

definition Client_SampleStream ::
  "runtime \<Rightarrow> Client \<Rightarrow> int \<Rightarrow> string \<Rightarrow> int \<Rightarrow> int \<Rightarrow> (string \<times> string) list \<Rightarrow>
     (world, upstream_error, object option list \<times> bool) action" where
  "Client_SampleStream R c deadline stream count outputLimit filters w =
     (case newRequest R c (Some deadline) ''GET'' (''feeds'' # feedPath stream @ [''stream'']) of
        Inl e \<Rightarrow> (Inl e, w)
      | Inr (d, request) \<Rightarrow>
          let d = (if standard d then d\<lparr>clientTimeout := 0\<rparr> else d)
          in (case Do R d request w of
                (NoAnswer elapsed, w) \<Rightarrow>
                  (Inl (Failure ''synthient stream request failed''), observe c 0 elapsed w)
              | (Answered code retryAfter raw ending elapsed, w) \<Rightarrow>
                  (if code < 200 \<or> 300 \<le> code
                   then (let decoded = sanitizeObject (decodeObject (readBounded raw (64 * 2 ^ 10))) (apiKey c)
                         in Inl (Api \<lparr>Status = code, RetryAfter = [], ErrMessage = streamError code decoded\<rparr>))
                   else (let s = sample_body (apiKey c) filters count outputLimit raw ending
                         in case Failed s of
                              None \<Rightarrow> Inr (Events s, Truncated s)
                            | Some DecodeEvent \<Rightarrow> Inl (Failure ''decode Synthient stream event'')
                            | Some ReadStream \<Rightarrow> Inl (Failure ''read Synthient stream'')),
                   observe c code elapsed w)))"

section \<open>Where a request goes\<close>

lemma join_segments_fields:
  "join_segments u segments = Inr v \<Longrightarrow>
     Scheme v = Scheme u \<and> HostPort v = HostPort u \<and> Opaque v = Opaque u \<and> User v = User u \<and>
     Fragment v = Fragment u \<and> RawQuery v = RawQuery u"
  by (induction u segments rule: join_segments.induct) (auto split: if_splits)

text \<open>The text every URL below a base URL starts with.\<close>

definition base_text :: "URL \<Rightarrow> string" where
  "base_text base =
     Scheme base @ ''://'' @ escape_host (HostPort base) @
     (if HasPrefix (basePrefix base) ''/'' then basePrefix base else CHR ''/'' # basePrefix base)"

lemma HasPrefix_slash: "HasPrefix p (q @ ''/'') \<Longrightarrow> HasPrefix p ''/'' \<longleftrightarrow> HasPrefix (q @ ''/'') ''/''"
  by (cases q) (auto simp: HasPrefix_iff)

lemma path_endpoint_confined:
  assumes "path_endpoint base segments = Inr u" "Opaque base = []" "User base = None"
  shows "HasPrefix (URL_String (u\<lparr>RawQuery := q\<rparr>)) (base_text base)"
proof -
  from assms(1) have j: "join_segments (base\<lparr>Path := TrimSuffix (Path base) ''/''\<rparr>) segments = Inr u"
    and h: "HasPrefix (EscapedPath u) (basePrefix base)" "Scheme u = Scheme base" "HostPort u = HostPort base"
    by (auto simp: path_endpoint_def attempt_Inr_iff split: if_splits)
  have "Opaque u = []" "User u = None" using join_segments_fields [OF j] assms(2,3) by simp_all
  moreover have "EscapedPath (u\<lparr>RawQuery := q\<rparr>) = EscapedPath u" by (simp add: EscapedPath_def)
  moreover have "EscapedPath u \<noteq> []" using h(1) by (auto simp: basePrefix_def HasPrefix_iff)
  moreover have "HasPrefix (EscapedPath u) ''/'' \<longleftrightarrow> HasPrefix (basePrefix base) ''/''"
    using h(1) HasPrefix_slash unfolding basePrefix_def by blast
  ultimately show ?thesis using h by (auto simp: URL_String_def base_text_def Let_def HasPrefix_iff)
qed

text \<open>A base URL whose escaped path is made of plain elements.\<close>

definition api_base :: "URL \<Rightarrow> string list \<Rightarrow> bool" where
  "api_base base elements \<longleftrightarrow>
     RawPath base = [] \<and> elements \<noteq> [] \<and> list_all plain elements \<and>
     escape PathMode (TrimSuffix (Path base) ''/'') = rooted elements \<and>
     TrimSuffix (EscapedPath base) ''/'' = rooted elements"

lemma join_segments_rooted:
  assumes "EscapedPath u = rooted es" "es \<noteq> []" "list_all plain es" "validEncoded (rooted es)"
    "unescape (rooted es) \<noteq> None" "\<forall>s\<in>set segments. plain (PathEscape s)"
  shows "\<exists>v. join_segments u segments = Inr v \<and> EscapedPath v = rooted (es @ map PathEscape segments)"
  using assms
proof (induction segments arbitrary: u es)
  case (Cons s segments)
  then have p: "plain (PathEscape s)" by simp
  note j = JoinPath_rooted [OF Cons.prems(1-5) p]
  have "s \<noteq> []" using p by (simp add: plain_PathEscape)
  moreover have "list_all plain (es @ [PathEscape s])" using Cons.prems(3) p by simp
  ultimately show ?case using Cons.IH [OF j(1) _ _ j(2,3)] Cons.prems(6) by simp
qed simp

lemma path_endpoint_rooted:
  assumes "api_base base elements" "segments \<noteq> []" "\<forall>s\<in>set segments. s \<noteq> [] \<and> s \<noteq> ''.'' \<and> s \<noteq> ''..''"
  shows "\<exists>u. path_endpoint base segments = Inr u \<and>
    EscapedPath u = rooted (elements @ map PathEscape segments)"
proof -
  let ?u = "base\<lparr>Path := TrimSuffix (Path base) ''/''\<rparr>"
  from assms(1) have b: "RawPath base = []" "elements \<noteq> []" "list_all plain elements"
    "escape PathMode (TrimSuffix (Path base) ''/'') = rooted elements"
    "TrimSuffix (EscapedPath base) ''/'' = rooted elements"
    by (simp_all add: api_base_def)
  have "validEncoded (rooted elements)" "unescape (rooted elements) \<noteq> None"
    using validEncoded_escape [of PathMode "TrimSuffix (Path base) ''/''"]
      unescape_escape [of PathMode "TrimSuffix (Path base) ''/''"] by (simp_all add: b(4))
  moreover have "EscapedPath ?u = rooted elements"
  proof -
    have "TrimSuffix (Path base) ''/'' \<noteq> ''*''"
    proof
      assume "TrimSuffix (Path base) ''/'' = ''*''"
      then have "rooted elements = escape PathMode ''*''" using b(4) by simp
      moreover have "escape PathMode ''*'' = ''%2A''" by code_simp
      ultimately show False using b(2) by (cases elements) auto
    qed
    then show ?thesis using b by (simp add: EscapedPath_def)
  qed
  ultimately obtain u where u: "join_segments ?u segments = Inr u"
    "EscapedPath u = rooted (elements @ map PathEscape segments)"
    using join_segments_rooted [of ?u elements segments] assms(3) b by (auto simp: plain_PathEscape)
  moreover have "Scheme u = Scheme base" "HostPort u = HostPort base"
    using join_segments_fields [OF u(1)] by simp_all
  moreover have "HasPrefix (EscapedPath u) (basePrefix base)"
    using assms(2) by (cases segments) (auto simp: u(2) basePrefix_def b(5) HasPrefix_iff)
  ultimately show ?thesis by (simp add: path_endpoint_def)
qed

text \<open>A base URL without a path: joining keeps the path relative, and no request can be made.\<close>

lemma JoinPath_relative:
  assumes "\<not> HasPrefix (EscapedPath u) ''/''"
  shows "\<not> HasPrefix (EscapedPath (JoinPath u (PathEscape s))) ''/''"
proof -
  let ?e = "PathEscape s" and ?first = "EscapedPath u"
  let ?parts = "foldl clean_element [] (SplitByte CHR ''/'' (?first @ CHR ''/'' # ?e))"
  let ?p = "JoinByte CHR ''/'' ?parts"
  have parts: "set ?parts \<subseteq> set (SplitByte CHR ''/'' (?first @ CHR ''/'' # ?e))" "[] \<notin> set ?parts"
    using foldl_clean_set [of "[]"] by auto
  then have "\<forall>w\<in>set ?parts. w \<noteq> [] \<and> CHR ''/'' \<notin> set w" using SplitByte_no_sep by fastforce
  then have p: "\<not> HasPrefix ?p ''/''" by (rule JoinByte_not_sep)
  have e: "CHR ''/'' \<notin> set ?e" by (rule PathEscape_no_slash)
  have "set ?p \<subseteq> set (''/'' @ ?first @ ?e)"
    using JoinByte_set [of "CHR ''/''" ?parts] parts(1) SplitByte_set by fastforce
  moreover have "validEncoded ?first" "validEncoded ?e" "validEncoded ''/''"
    using validEncoded_EscapedPath validEncoded_escape [of SegmentMode s] by (simp_all add: PathEscape_def) code_simp
  ultimately have "validEncoded ?p" using validEncoded_subset validEncoded_append by blast
  moreover have "JoinPath u ?e = setPath u ?p"
    using assms e by (auto simp: JoinPath_def Clean_def Let_def HasSuffix_iff)
  ultimately have "EscapedPath (JoinPath u ?e) \<in> {?p, ''*'', ?first}"
    using EscapedPath_setPath_cases by simp
  with p assms show ?thesis by (auto simp: HasPrefix_iff)
qed

lemma join_segments_relative:
  "\<not> HasPrefix (EscapedPath u) ''/'' \<Longrightarrow> join_segments u segments = Inr v \<Longrightarrow> \<not> HasPrefix (EscapedPath v) ''/''"
  by (induction u segments rule: join_segments.induct) (auto simp: JoinPath_relative split: if_splits)

lemma join_segments_Inl: "join_segments u segments = Inl e \<Longrightarrow> \<exists>message. e = Failure message"
  by (induction u segments rule: join_segments.induct) (auto split: if_splits)

lemma path_endpoint_root:
  assumes "RawPath base = []" "Path base = [] \<or> Path base = ''/''"
  shows "\<exists>message. path_endpoint base segments = Inl (Failure message)"
proof -
  have t: "TrimSuffix (Path base) ''/'' = []" using assms(2) by (auto simp: TrimSuffix_def HasSuffix_def HasPrefix_def)
  have "escape PathMode ''/'' = ''/''" "escape PathMode [] = []" by code_simp+
  then have e: "EscapedPath base = [] \<or> EscapedPath base = ''/''" using assms by (auto simp: EscapedPath_def)
  then have prefix: "basePrefix base = ''/''"
    by (auto simp: basePrefix_def TrimSuffix_def HasSuffix_def HasPrefix_def)
  show ?thesis
  proof (cases "join_segments (base\<lparr>Path := []\<rparr>) segments")
    case (Inl e)
    with join_segments_Inl [OF Inl] show ?thesis by (auto simp: path_endpoint_def t)
  next
    case (Inr u)
    have "EscapedPath (base\<lparr>Path := []\<rparr>) = []" using assms(1) \<open>escape PathMode [] = []\<close> by (simp add: EscapedPath_def)
    then have "\<not> HasPrefix (EscapedPath u) ''/''" using join_segments_relative [OF _ Inr] by (simp add: HasPrefix_iff)
    with Inr prefix show ?thesis by (simp add: path_endpoint_def t)
  qed
qed

section \<open>What an operation does to the world\<close>

text \<open>An operation leaves the world alone, or makes one request below the base URL and observes it.\<close>

inductive upstream_step :: "Client \<Rightarrow> world \<Rightarrow> world \<Rightarrow> bool" for c where
  quiet: "upstream_step c w w"
| request:
    "\<lbrakk>baseURL c = Some base; httpClient c = Some d; path_endpoint base segments = Inr u;
      Target out = URL_String (u\<lparr>RawQuery := query\<rparr>); Values (OutHeader out) ''X-API-Key'' = [apiKey c];
      Values (OutHeader out) ''X-Forwarded-For'' = (if forwardedFor c = [] then [] else [forwardedFor c]);
      d' = d\<lparr>clientTimeout := t\<rparr>\<rbrakk> \<Longrightarrow>
     upstream_step c w (observe c code elapsed (w\<lparr>Sent := Sent w @ [Exchange d' out]\<rparr>))"

lemma header_keys [simp]:
  "CanonicalHeaderKey ''Accept'' = ''Accept''" "CanonicalHeaderKey ''User-Agent'' = ''User-Agent''"
  by code_simp+

lemma request_header_values:
  "Values (request_header R c payload) ''X-API-Key'' = [apiKey c]"
  "Values (request_header R c payload) ''X-Forwarded-For'' = (if forwardedFor c = [] then [] else [forwardedFor c])"
  by (simp_all add: request_header_def set_forwarded_def Let_def header_simps)

lemma requestQuery_step: "upstream_step c w (snd (requestQuery R c method segments query payload w))"
proof (cases "baseURL c = None \<or> httpClient c = None")
  case True
  then show ?thesis by (auto simp: requestQuery_def quiet split: option.splits)
next
  case False
  then obtain base d where b: "baseURL c = Some base" "httpClient c = Some d" by auto
  show ?thesis
  proof (cases "path_endpoint base segments")
    case (Inl e)
    with b show ?thesis by (simp add: requestQuery_def quiet)
  next
    case (Inr u)
    let ?request = "\<lparr>OutMethod = method, Target = URL_String (u\<lparr>RawQuery := Encode query\<rparr>),
      OutHeader = request_header R c payload, OutBody = payload, Deadline = None\<rparr>"
    have "upstream_step c w (observe c code elapsed (w\<lparr>Sent := Sent w @ [Exchange d ?request]\<rparr>))" for code elapsed
      by (rule upstream_step.request [OF b Inr, where query = "Encode query" and t = "clientTimeout d"])
        (simp_all add: request_header_values)
    then show ?thesis using b Inr by (auto simp: requestQuery_def Do_def Let_def quiet split: answer.splits)
  qed
qed

lemma requestAs_step:
  "upstream_step c w (snd (requestAsQuery typed R c method segments query payload w))"
  "upstream_step c w (snd (requestAs typed R c method segments payload w))"
  using requestQuery_step by (simp_all add: requestAs_def requestAsQuery_def attempt_in_finish)

lemma newRequest_Inr:
  assumes "newRequest R c deadline method segments = Inr (d, request)"
  shows "\<exists>base u. baseURL c = Some base \<and> httpClient c = Some d \<and> path_endpoint base segments = Inr u \<and>
    Target request = URL_String u \<and> Values (OutHeader request) ''X-API-Key'' = [apiKey c] \<and>
    Values (OutHeader request) ''X-Forwarded-For'' = (if forwardedFor c = [] then [] else [forwardedFor c])"
  using assms
  by (auto simp: newRequest_def set_forwarded_def header_simps attempt_Inr_iff split: option.splits if_splits)

lemma SampleStream_step: "upstream_step c w (snd (Client_SampleStream R c deadline stream count outputLimit filters w))"
proof (cases "newRequest R c (Some deadline) ''GET'' (''feeds'' # feedPath stream @ [''stream''])")
  case (Inl e)
  then show ?thesis by (simp add: Client_SampleStream_def quiet)
next
  case (Inr dr)
  obtain d request where dr: "dr = (d, request)" by (cases dr) auto
  with Inr newRequest_Inr obtain base u where
    b: "baseURL c = Some base" "httpClient c = Some d"
      "path_endpoint base (''feeds'' # feedPath stream @ [''stream'']) = Inr u" and
    t: "Target request = URL_String u" and
    h: "Values (OutHeader request) ''X-API-Key'' = [apiKey c]"
      "Values (OutHeader request) ''X-Forwarded-For'' = (if forwardedFor c = [] then [] else [forwardedFor c])"
    by blast
  let ?d = "if standard d then d\<lparr>clientTimeout := 0\<rparr> else d"
  have "upstream_step c w (observe c code elapsed (w\<lparr>Sent := Sent w @ [Exchange ?d request]\<rparr>))" for code elapsed
    by (rule upstream_step.request [OF b _ h, where query = "RawQuery u" and
          t = "if standard d then 0 else clientTimeout d"]) (simp_all add: t)
  then show ?thesis
    using Inr dr by (auto simp: Client_SampleStream_def Do_def Let_def split: answer.splits)
qed

section \<open>Confinement and metering\<close>

text \<open>A client whose base URL is only a place, and whose HTTP client does not follow redirects.\<close>

definition client_ok :: "Client \<Rightarrow> bool" where
  "client_ok c \<longleftrightarrow>
     (case baseURL c of None \<Rightarrow> True | Some base \<Rightarrow> Opaque base = [] \<and> User base = None) \<and>
     (case httpClient c of None \<Rightarrow> True | Some d \<Rightarrow> \<not> followsRedirects d)"

text \<open>An exchange that carries the caller's key only to the configured place.\<close>

definition confined_exchange :: "Client \<Rightarrow> exchange \<Rightarrow> bool" where
  "confined_exchange c x =
     (case x of
        Exchange d request \<Rightarrow>
          \<not> followsRedirects d \<and>
          (case baseURL c of None \<Rightarrow> False | Some base \<Rightarrow> HasPrefix (Target request) (base_text base)) \<and>
          Values (OutHeader request) ''X-API-Key'' = [apiKey c] \<and>
          Values (OutHeader request) ''X-Forwarded-For'' = (if forwardedFor c = [] then [] else [forwardedFor c])
      | Reflection key endpoint symbols deadline \<Rightarrow> key = apiKey c \<and> endpoint = grpcEndpoint c)"

text \<open>Whatever was sent before, what was sent since is confined.\<close>

definition confined :: "Client \<Rightarrow> exchange list \<Rightarrow> world \<Rightarrow> bool" where
  "confined c before w \<longleftrightarrow>
     (\<exists>new. Sent w = before @ new \<and> (client_ok c \<longrightarrow> list_all (confined_exchange c) new))"

lemma confined_snoc:
  assumes "confined c before w" "client_ok c \<Longrightarrow> confined_exchange c x"
  shows "confined c before (w\<lparr>Sent := Sent w @ [x]\<rparr>)"
proof -
  from assms(1) obtain new where "Sent w = before @ new" "client_ok c \<longrightarrow> list_all (confined_exchange c) new"
    by (auto simp: confined_def)
  with assms(2) show ?thesis unfolding confined_def by (intro exI [of _ "new @ [x]"]) simp
qed

text \<open>Every HTTP exchange is counted once, in one outcome; the counters are 64-bit words.\<close>

fun is_http :: "exchange \<Rightarrow> bool" where
  "is_http (Exchange d request) = True"
| "is_http (Reflection key endpoint symbols deadline) = False"

definition counted :: "Client \<Rightarrow> world \<Rightarrow> bool" where
  "counted c w \<longleftrightarrow>
     (observed c \<longrightarrow>
        upstreamRequests (Stats w) = of_nat (length (filter is_http (Sent w))) \<and>
        outcomes (Stats w) = upstreamRequests (Stats w))"

definition exchanges :: "world \<Rightarrow> nat" where
  "exchanges w = length (Sent w)"

lemma Sent_observe [simp]: "Sent (observe c code elapsed w) = Sent w"
  by (simp add: observe_def)

lemma counted_observe:
  "counted c w \<Longrightarrow> is_http x \<Longrightarrow> counted c (observe c code elapsed (w\<lparr>Sent := Sent w @ [x]\<rparr>))"
proof -
  assume c: "counted c w" "is_http x"
  have "upstreamRequests (ObserveUpstream code elapsed s) = upstreamRequests s + 1" for s
    by (simp add: ObserveUpstream_def Let_def)
  with c ObserveUpstream_balanced show ?thesis by (auto simp: counted_def observe_def)
qed

lemma step_keeps:
  "upstream_step c w w' \<Longrightarrow>
     (confined c before w \<longrightarrow> confined c before w') \<and> (counted c w \<longrightarrow> counted c w') \<and> exchanges w' \<le> Suc (exchanges w)"
proof (induction rule: upstream_step.induct)
  case (request base d segments u out query d' t w code elapsed)
  then have x: "client_ok c \<Longrightarrow> confined_exchange c (Exchange d' out)"
    using path_endpoint_confined by (simp add: client_ok_def confined_exchange_def)
  have "confined c before (observe c code elapsed v) = confined c before v" for v by (simp add: confined_def)
  with confined_snoc [OF _ x] counted_observe show ?case by (simp add: exchanges_def)
qed simp

lemma step_behaves:
  assumes "\<And>w. upstream_step c w (snd (act w))"
  shows "behaves (confined c before) exchanges act" "behaves (counted c) exchanges act"
  using step_keeps [OF assms] by (simp_all add: behaves_def)

lemma GRPCSchema_behaves:
  "behaves (confined c before) exchanges (Client_GRPCSchema R c deadline symbols)"
  "behaves (counted c) exchanges (Client_GRPCSchema R c deadline symbols)"
  by (simp_all add: behaves_def Client_GRPCSchema_def confined_snoc confined_exchange_def counted_def exchanges_def)

section \<open>The client as the tools' interface\<close>

definition client_api :: "runtime \<Rightarrow> Client \<Rightarrow> world API" where
  "client_api R c =
     \<lparr>AccountOp = Client_Account R c, LookupIPOp = Client_LookupIP R c, LookupIPsOp = Client_LookupIPs R c,
      LookupDomainOp = Client_LookupDomain R c, FeedSnapshotsOp = Client_FeedSnapshots R c,
      FeedSnapshotMetaOp = Client_FeedSnapshotMeta R c, SampleStreamOp = Client_SampleStream R c,
      GRPCSchemaOp = Client_GRPCSchema R c\<rparr>"

lemmas client_operations =
  Client_Account_def Client_LookupIP_def Client_LookupIPs_def Client_LookupDomain_def
  Client_FeedSnapshots_def Client_FeedSnapshotMeta_def

lemma client_step:
  "upstream_step c w (snd (Client_Account R c w))" "upstream_step c w (snd (Client_LookupIP R c ip w))"
  "upstream_step c w (snd (Client_LookupIPs R c ips w))" "upstream_step c w (snd (Client_LookupDomain R c domain w))"
  "upstream_step c w (snd (Client_FeedSnapshots R c stream limit cursor w))"
  "upstream_step c w (snd (Client_FeedSnapshotMeta R c stream snapshot w))"
  unfolding client_operations by (rule requestAs_step)+

lemmas client_behaves = client_step [THEN step_behaves(1)] client_step [THEN step_behaves(2)]
  SampleStream_step [THEN step_behaves(1)] SampleStream_step [THEN step_behaves(2)] GRPCSchema_behaves

interpretation confining: api_contract "client_api R c" "confined c before" exchanges for R c before
  by unfold_locales (simp_all add: client_api_def client_behaves)

interpretation counting: api_contract "client_api R c" "counted c" exchanges for R c
  by unfold_locales (simp_all add: client_api_def client_behaves)

section \<open>Properties\<close>

text \<open>The default base URL, and a runtime whose network never answers.\<close>

definition example_base :: URL where
  "example_base =
     \<lparr>Scheme = ''https'', Opaque = [], User = None, HostPort = ''api.synthient.com'', Path = ''/api/v4/'',
      RawPath = [], RawQuery = [], Fragment = []\<rparr>"

definition example_doer :: doer where
  "example_doer = \<lparr>standard = True, followsRedirects = True, clientTimeout = 15000000000\<rparr>"

definition example_runtime :: runtime where
  "example_runtime =
     \<lparr>lib = \<lparr>lowerUnicode = id, urlParse = (\<lambda>_. Some example_base), parseRequestURI = (\<lambda>_. None)\<rparr>,
      version = [], network = (\<lambda>_ _ _. NoAnswer 1), reflect = (\<lambda>_ _ _ _. Inl ''unavailable''),
      asAccount = (\<lambda>_. None), asIP = (\<lambda>_. None), asIPs = (\<lambda>_. None), asDomain = (\<lambda>_. None),
      asPage = (\<lambda>_. None), asMeta = (\<lambda>_. None)\<rparr>"

definition example_client :: Client where
  "example_client = NewClient (Some example_base) ''k-1'' [] (Some example_doer) True"

definition fresh_world :: world where
  "fresh_world = \<lparr>Sent = [], Stats = telemetry_zero\<rparr>"

lemma example_api_base: "api_base example_base [''api'', ''v4'']"
  by code_simp

text \<open>C18: The path of a request reads back as what it was built from: below a base URL with a plain
  path, any segments but the empty one, \<open>.\<close> and \<open>..\<close> give a URL, and whoever splits its path at the
  slashes and unescapes the parts after the base finds exactly those segments, whatever characters
  they contain.\<close>

theorem path_reads_back:
  assumes "api_base base elements" "segments \<noteq> []"
    and "\<forall>segment\<in>set segments. segment \<noteq> [] \<and> segment \<noteq> ''.'' \<and> segment \<noteq> ''..''"
  shows "\<exists>u. path_endpoint base segments = Inr u \<and> Scheme u = Scheme base \<and> HostPort u = HostPort base \<and>
    map unescape (drop (Suc (length elements)) (SplitByte CHR ''/'' (EscapedPath u))) = map Some segments"
proof -
  obtain u where u: "path_endpoint base segments = Inr u"
    "EscapedPath u = rooted (elements @ map PathEscape segments)"
    using path_endpoint_rooted [OF assms] by blast
  have "list_all plain (elements @ map PathEscape segments)"
    using assms by (auto simp: api_base_def list_all_iff plain_PathEscape)
  then have "SplitByte CHR ''/'' (EscapedPath u) = [] # elements @ map PathEscape segments"
    using assms(2) u(2) by (simp add: SplitByte_rooted del: rooted_simps)
  then have "map unescape (drop (Suc (length elements)) (SplitByte CHR ''/'' (EscapedPath u))) = map Some segments"
    by simp
  with u(1) show ?thesis by (auto simp: path_endpoint_def attempt_Inr_iff split: if_splits)
qed

theorem path_reads_back_witness:
  "\<exists>u. path_endpoint example_base [''lookup'', ''domain'', ''a/../b?c''] = Inr u \<and>
     map unescape (drop 3 (SplitByte CHR ''/'' (EscapedPath u))) = map Some [''lookup'', ''domain'', ''a/../b?c'']"
  using path_reads_back [OF example_api_base, of "[''lookup'', ''domain'', ''a/../b?c'']"]
  by (auto simp: numeral_3_eq_3)



text \<open>C19: A batch lookup sends the addresses it is given: if it makes a request, it is one POST of a JSON
  body that decodes to exactly the object with those addresses in their order, and nothing after it.\<close>

theorem batch_body_roundtrip:
  assumes "list_all is_ascii (ip # ips)"
    and "Sent (snd (Client_LookupIPs R c (ip # ips) w)) \<noteq> Sent w"
  shows "\<exists>d request payload. Sent (snd (Client_LookupIPs R c (ip # ips) w)) = Sent w @ [Exchange d request] \<and>
    OutMethod request = ''POST'' \<and> OutBody request = Some payload \<and>
    Get (OutHeader request) ''Content-Type'' = ''application/json'' \<and>
    Decode payload = Decoded (JObject [(''ips'', JArray (map JString (ip # ips)))]) []"
proof -
  let ?segments = "[''lookup'', ''ips'']" and ?payload = "Marshal_list ''ips'' (ip # ips)"
  let ?w = "snd (requestQuery R c ''POST'' ?segments [] (Some ?payload) w)"
  have w: "snd (Client_LookupIPs R c (ip # ips) w) = ?w"
    by (simp add: Client_LookupIPs_def requestAs_def requestAsQuery_def attempt_in_finish)
  have "Sent ?w = Sent w \<or> (\<exists>d u. Sent ?w = Sent w @ [Exchange d
      \<lparr>OutMethod = ''POST'', Target = URL_String (u\<lparr>RawQuery := Encode []\<rparr>),
       OutHeader = request_header R c (Some ?payload), OutBody = Some ?payload, Deadline = None\<rparr>])"
    by (auto simp: requestQuery_def Do_def Let_def split: option.splits sum.splits answer.splits)
  with assms(2) w obtain d u where "Sent ?w = Sent w @ [Exchange d
      \<lparr>OutMethod = ''POST'', Target = URL_String (u\<lparr>RawQuery := Encode []\<rparr>),
       OutHeader = request_header R c (Some ?payload), OutBody = Some ?payload, Deadline = None\<rparr>]" by metis
  moreover have "Get (request_header R c (Some ?payload)) ''Content-Type'' = ''application/json''"
    by (simp add: request_header_def Let_def header_simps)
  moreover have "Decode ?payload = Decoded (JObject [(''ips'', JArray (map JString (ip # ips)))]) []"
  proof (rule Decode_Marshal_list)
    show "is_ascii ''ips''" by code_simp
  qed (rule assms(1))
  ultimately show ?thesis unfolding w by fastforce
qed

lemma example_request:
  "Sent (snd (Client_LookupIPs example_runtime example_client ips fresh_world)) \<noteq> Sent fresh_world"
proof -
  obtain u where "path_endpoint example_base [''lookup'', ''ips''] = Inr u"
    using path_endpoint_rooted [OF example_api_base, of "[''lookup'', ''ips'']"] by auto
  then show ?thesis
    by (simp add: Client_LookupIPs_def requestAs_def requestAsQuery_def attempt_in_finish requestQuery_def
        example_client_def NewClient_def example_runtime_def Do_def fresh_world_def)
qed

theorem batch_body_roundtrip_witness:
  "\<exists>d request payload.
     Sent (snd (Client_LookupIPs example_runtime example_client [''192.0.2.1'', ''::1''] fresh_world)) =
       Sent fresh_world @ [Exchange d request] \<and>
     OutBody request = Some payload \<and>
     Decode payload = Decoded (JObject [(''ips'', JArray [JString ''192.0.2.1'', JString ''::1''])]) []"
proof -
  have "list_all is_ascii [''192.0.2.1'', ''::1'']" by code_simp
  from batch_body_roundtrip [OF this example_request] show ?thesis by auto
qed

end
