(* ===== verification/Tool_Inputs.thy ===== *)
theory Tool_Inputs
  imports Sdk Go_Net_Canon Go_Url
begin

text \<open>
  Component \<open>internal/mcpserver\<close>, the checks on what a tool is called with: addresses, domains, feed
  names, snapshot dates, filters and protobuf names. Every error return is a value of \<open>tool_error\<close>.
  \<open>time.Parse\<close> with the layout \<open>2006-01-02\<close> is \<open>parse_date\<close>.
\<close>

datatype tool_error =
    BadIPCount
  | BadIP
  | AtIndex nat tool_error
  | BadDomain
  | BadLabels
  | UnknownStream string
  | NotLive string
  | BadLimit
  | BadCursor
  | BadDate
  | BadHour
  | BadSampleCount
  | BadTimeout int
  | TooManyFilters
  | BadFilterSize
  | BadFilterName string
  | TooManySymbols
  | BadSymbol nat
  | BadSymbolName nat
  | NoDescriptorSet
  | DescriptorEncoding
  | DescriptorTooLarge
  | Upstream upstream_error

section \<open>Addresses and domains\<close>

definition normalizeIP :: "string \<Rightarrow> (tool_error, string) result" where
  "normalizeIP value =
     (let value = TrimSpace value
      in case ParseAddr value of
           None \<Rightarrow> Inl BadIP
         | Some address \<Rightarrow> if Zone address \<noteq> [] then Inl BadIP else Inr (Addr_String (Unmap address)))"

definition asciiLetterOrDigit :: "char \<Rightarrow> bool" where
  "asciiLetterOrDigit c \<longleftrightarrow> (97 \<le> byte c \<and> byte c \<le> 122) \<or> (48 \<le> byte c \<and> byte c \<le> 57)"

definition label_ok :: "string \<Rightarrow> bool" where
  "label_ok label \<longleftrightarrow>
     \<not> (length label < 1 \<or> 63 < length label \<or> \<not> asciiLetterOrDigit (hd label) \<or> \<not> asciiLetterOrDigit (last label)) \<and>
     list_all (\<lambda>c. asciiLetterOrDigit c \<or> c = CHR ''-'') (butlast (tl label))"

definition normalizeDomain :: "golib \<Rightarrow> string \<Rightarrow> (tool_error, string) result" where
  "normalizeDomain L value =
     (let value = lower L (TrimSpace value);
          value = TrimSuffix value ''.''
      in if value = [] \<or> 253 < length value then Inl BadDomain
         else if \<not> list_all label_ok (SplitByte CHR ''.'' value) then Inl BadLabels
         else Inr value)"

section \<open>Feed streams\<close>

record FeedStream =
  StreamName :: string
  Aliases :: "string list"
  StreamDescription :: string
  RequiredScope :: string
  Live :: bool

definition feed_stream :: "string \<Rightarrow> string list \<Rightarrow> string \<Rightarrow> string \<Rightarrow> bool \<Rightarrow> FeedStream" where
  "feed_stream name aliases description scope live =
     \<lparr>StreamName = name, Aliases = aliases, StreamDescription = description, RequiredScope = scope, Live = live\<rparr>"

definition feedStreams :: "FeedStream list" where
  "feedStreams =
     [feed_stream ''proxies'' [''proxy'']
        ''Proxy IP observations across residential, datacenter, and mobile networks.'' ''PROXY_FEEDS'' True,
      feed_stream ''anonymizers'' [''anonymizer'']
        ''VPN, Tor, private relay, and other anonymizer ranges.'' ''ANONYMIZERS_FEED'' True,
      feed_stream ''torrents'' [''torrent'']
        ''DHT and tracker peer sightings with metadata and observed peers.'' ''TORRENTS_FEED'' True,
      feed_stream ''honeypot_http'' [''helios_http'', ''http'']
        ''HTTP request captures from Helios honeypot sensors.'' ''HONEYPOT_HTTP_FEED'' True,
      feed_stream ''honeypot_https'' [''helios_https'', ''https'', ''tls'']
        ''TLS ClientHello captures from Helios honeypot sensors.'' ''HONEYPOT_HTTPS_FEED'' True,
      feed_stream ''honeypot_dns'' [''helios_dns'', ''dns'']
        ''DNS resolution observations from Helios honeypot tunnels.'' ''HONEYPOT_DNS_FEED'' False,
      feed_stream ''honeypot_adb'' [''helios_adb'', ''adb'']
        ''Android Debug Bridge shell commands captured by Helios sensors.'' ''HONEYPOT_ADB_FEED'' False]"

definition contains :: "string list \<Rightarrow> string \<Rightarrow> bool" where
  "contains values target = list_ex (\<lambda>value. value = target) values"

fun find_stream :: "string \<Rightarrow> bool \<Rightarrow> FeedStream list \<Rightarrow> (tool_error, FeedStream) result" where
  "find_stream value requireLive [] = Inl (UnknownStream value)"
| "find_stream value requireLive (stream # streams) =
     (if value = StreamName stream \<or> contains (Aliases stream) value
      then (if requireLive \<and> \<not> Live stream then Inl (NotLive (StreamName stream)) else Inr stream)
      else find_stream value requireLive streams)"

definition normalizeFeedStream :: "golib \<Rightarrow> string \<Rightarrow> bool \<Rightarrow> (tool_error, FeedStream) result" where
  "normalizeFeedStream L value requireLive =
     find_stream (lower L (TrimSpace value)) requireLive feedStreams"

definition liveStreamCount :: nat where
  "liveStreamCount = foldl (\<lambda>count stream. if Live stream then count + 1 else count) 0 feedStreams"

section \<open>Snapshot dates\<close>

definition leap_year :: "nat \<Rightarrow> bool" where
  "leap_year y \<longleftrightarrow> y mod 4 = 0 \<and> (y mod 100 \<noteq> 0 \<or> y mod 400 = 0)"

definition days_in :: "nat \<Rightarrow> nat \<Rightarrow> nat" where
  "days_in y m =
     (if m = 2 then (if leap_year y then 29 else 28)
      else if m \<in> set [4, 6, 9, 11] then 30 else 31)"

text \<open>Four, two and two digits between dashes, naming a day of the Gregorian calendar.\<close>

definition parse_date :: "string \<Rightarrow> (nat \<times> nat \<times> nat) option" where
  "parse_date s =
     (let year = take 4 s; month = take 2 (drop 5 s); day = take 2 (drop 8 s);
          y = nat_value 10 year; m = nat_value 10 month; d = nat_value 10 day
      in if length s = 10 \<and> s ! 4 = CHR ''-'' \<and> s ! 7 = CHR ''-'' \<and>
            list_all is_digit (year @ month @ day) \<and> 1 \<le> m \<and> m \<le> 12 \<and> 1 \<le> d \<and> d \<le> days_in y m
         then Some (y, m, d) else None)"

definition snapshotSegments :: "string \<Rightarrow> (tool_error, string list) result" where
  "snapshotSegments value =
     (let value = TrimSpace value
      in if value = ''latest'' then Inr [''latest'']
         else (case CutByte CHR ''/'' value of
                 (date, hour, hasHour) \<Rightarrow>
                   if parse_date date = None then Inl BadDate
                   else if \<not> hasHour then Inr [date]
                   else (case Atoi hour of
                           None \<Rightarrow> Inl BadHour
                         | Some parsedHour \<Rightarrow>
                             if parsedHour < 0 \<or> 23 < parsedHour \<or> Itoa parsedHour \<noteq> hour then Inl BadHour
                             else Inr [date, hour])))"

section \<open>Filters and symbols\<close>

definition filter_char :: "char \<Rightarrow> bool" where
  "filter_char c \<longleftrightarrow> is_lower c \<or> is_upper c \<or> is_digit c \<or> c = CHR ''_'' \<or> c = CHR ''-'' \<or> c = CHR ''.''"

definition symbol_char :: "char \<Rightarrow> bool" where
  "symbol_char c \<longleftrightarrow> is_lower c \<or> is_upper c \<or> is_digit c \<or> c = CHR ''_'' \<or> c = CHR ''.''"

text \<open>A rune above 127 is refused like its bytes are. The map is given by its entries.\<close>

fun check_filters :: "(string \<times> string) list \<Rightarrow> (tool_error, unit) result" where
  "check_filters [] = Inr ()"
| "check_filters ((key, value) # filters) =
     (if key = [] \<or> 128 < length key \<or> 256 < length value then Inl BadFilterSize
      else if \<not> list_all filter_char key then Inl (BadFilterName key)
      else check_filters filters)"

definition validateFilters :: "(string \<times> string) list \<Rightarrow> (tool_error, unit) result" where
  "validateFilters filters = (if 10 < length filters then Inl TooManyFilters else check_filters filters)"

fun check_symbols :: "nat \<Rightarrow> string list \<Rightarrow> (tool_error, unit) result" where
  "check_symbols index [] = Inr ()"
| "check_symbols index (symbol # symbols) =
     (if symbol = [] \<or> 256 < length symbol \<or> HasPrefix symbol ''.'' \<or> HasSuffix symbol ''.''
      then Inl (BadSymbol index)
      else if \<not> list_all symbol_char symbol then Inl (BadSymbolName index)
      else check_symbols (Suc index) symbols)"

definition validateSymbols :: "string list \<Rightarrow> (tool_error, unit) result" where
  "validateSymbols symbols = (if 25 < length symbols then Inl TooManySymbols else check_symbols 0 symbols)"

lemma check_filters_Inr:
  "check_filters filters = Inr u \<longleftrightarrow>
     (\<forall>(key, value)\<in>set filters. key \<noteq> [] \<and> length key \<le> 128 \<and> length value \<le> 256 \<and> list_all filter_char key)"
  by (induction filters rule: check_filters.induct) auto

lemma check_symbols_Inr:
  "check_symbols index symbols = Inr u \<longleftrightarrow>
     (\<forall>symbol\<in>set symbols. symbol \<noteq> [] \<and> length symbol \<le> 256 \<and> \<not> HasPrefix symbol ''.'' \<and>
        \<not> HasSuffix symbol ''.'' \<and> list_all symbol_char symbol)"
  by (induction index symbols rule: check_symbols.induct) auto

section \<open>Canonical addresses\<close>

lemma Unmap_canonical:
  assumes "Zone a = []"
  shows "ParseAddr (Addr_String (Unmap a)) = Some (Unmap a) \<and> Unmap (Unmap a) = Unmap a \<and>
    Zone (Unmap a) = [] \<and> list_all addr_char (Addr_String (Unmap a)) \<and> Addr_String (Unmap a) \<noteq> []"
proof -
  consider w where "Unmap a = Addr4 w" | w where "Unmap a = Addr6 w []" "\<not> is4in6 w"
  proof (cases a)
    case (Addr6 w z)
    then show ?thesis using that assms by (cases "is4in6 w") auto
  qed (use that in simp)
  then show ?thesis
  proof cases
    case (1 w)
    then show ?thesis using string4_chars [of _ w] string4_dot [of w]
      by (auto simp: ParseAddr_string4 list_all_iff addr_char_def)
  next
    case (2 w)
    then show ?thesis using IP_String_chars [of _ w] string6_colon [of w]
      by (auto simp: ParseAddr_string6 list_all_iff IP_String_def)
  qed
qed

lemma normalizeIP_Inr:
  "normalizeIP value = Inr t \<longleftrightarrow>
     (\<exists>a. ParseAddr (TrimSpace value) = Some a \<and> Zone a = [] \<and> t = Addr_String (Unmap a))"
  by (auto simp: normalizeIP_def Let_def split: option.splits)

lemma addr_chars_graph: "list_all addr_char t \<Longrightarrow> list_all is_graph t"
  using addr_char_graph by (auto simp: list_all_iff)

text \<open>C17: An accepted address is canonical: it parses to the address that was asked for, with IPv4
  in IPv6 unmapped and no zone, it is a fixed point of the normalisation, and two accepted inputs give
  the same text exactly when they name the same address.\<close>

theorem normalize_ip_canonical:
  assumes "normalizeIP value = Inr t"
  shows "normalizeIP t = Inr t \<and> list_all addr_char t \<and>
    (\<exists>a. ParseAddr (TrimSpace value) = Some a \<and> Zone a = [] \<and> ParseAddr t = Some (Unmap a) \<and>
      (\<forall>other. normalizeIP other = Inr t \<longleftrightarrow>
         (\<exists>b. ParseAddr (TrimSpace other) = Some b \<and> Zone b = [] \<and> Unmap b = Unmap a)))"
proof -
  obtain a where a: "ParseAddr (TrimSpace value) = Some a" "Zone a = []" "t = Addr_String (Unmap a)"
    using assms by (auto simp: normalizeIP_Inr)
  note c = Unmap_canonical [OF a(2)]
  have "normalizeIP other = Inr t \<longleftrightarrow>
      (\<exists>b. ParseAddr (TrimSpace other) = Some b \<and> Zone b = [] \<and> Unmap b = Unmap a)" for other
  proof -
    have "Unmap b = Unmap a" if "Addr_String (Unmap b) = t" "Zone b = []" for b
    proof -
      have "Some (Unmap b) = ParseAddr t" using Unmap_canonical [OF that(2)] that(1) by metis
      also have "\<dots> = Some (Unmap a)" using c a(3) by metis
      finally show ?thesis by simp
    qed
    then show ?thesis unfolding normalizeIP_Inr a(3) by metis
  qed
  moreover have "TrimSpace t = t" using c a(3) addr_chars_graph TrimSpace_graph by blast
  then have "normalizeIP t = Inr t" using c a(3) by (simp add: normalizeIP_def)
  moreover have "list_all addr_char t" "ParseAddr t = Some (Unmap a)" using c a(3) by simp_all
  ultimately show ?thesis using a(1,2) by blast
qed

lemma example_ip: "normalizeIP ''192.0.2.1'' = Inr ''192.0.2.1''"
  by (simp add: normalizeIP_def go_eval)

theorem normalize_ip_canonical_witness:
  "normalizeIP ''192.0.2.1'' = Inr ''192.0.2.1''"
  using normalize_ip_canonical [OF example_ip] by simp

section \<open>Domains\<close>

text \<open>The specification: a label of a host name in lower case, and a name of such labels.\<close>

definition dns_label :: "string \<Rightarrow> bool" where
  "dns_label label \<longleftrightarrow>
     1 \<le> length label \<and> length label \<le> 63 \<and>
     list_all (\<lambda>c. is_lower c \<or> is_digit c \<or> c = CHR ''-'') label \<and> hd label \<noteq> CHR ''-'' \<and> last label \<noteq> CHR ''-''"

definition dns_name :: "string \<Rightarrow> bool" where
  "dns_name name \<longleftrightarrow> 1 \<le> length name \<and> length name \<le> 253 \<and> list_all dns_label (SplitByte CHR ''.'' name)"

lemma asciiLetterOrDigit_iff: "asciiLetterOrDigit c \<longleftrightarrow> is_lower c \<or> is_digit c"
  by (simp add: asciiLetterOrDigit_def is_lower_def is_digit_def)

lemma dash_no_letter: "\<not> is_lower CHR ''-''" "\<not> is_digit CHR ''-''"
  by code_simp+

lemma label_ok_iff: "label_ok label \<longleftrightarrow> dns_label label"
proof (cases label rule: rev_cases)
  case Nil
  then show ?thesis by (simp add: label_ok_def dns_label_def)
next
  case (snoc init z)
  show ?thesis
  proof (cases init)
    case Nil
    with snoc show ?thesis
      by (auto simp: label_ok_def dns_label_def asciiLetterOrDigit_iff dash_no_letter)
  next
    case (Cons a middle)
    with snoc show ?thesis
      by (auto simp: label_ok_def dns_label_def asciiLetterOrDigit_iff dash_no_letter list_all_iff butlast_append)
  qed
qed

lemma dns_label_graph: "dns_label label \<Longrightarrow> c \<in> set label \<Longrightarrow> (is_lower c \<or> is_digit c \<or> c = CHR ''-'')"
  by (auto simp: dns_label_def list_all_iff)

lemma dns_name_chars: "dns_name name \<Longrightarrow> c \<in> set name \<Longrightarrow> is_lower c \<or> is_digit c \<or> c = CHR ''-'' \<or> c = CHR ''.''"
proof -
  assume n: "dns_name name" "c \<in> set name"
  have "set name \<subseteq> insert CHR ''.'' (\<Union> (set ` set (SplitByte CHR ''.'' name)))"
    using set_JoinByte [of "CHR ''.''" "SplitByte CHR ''.'' name"] by (simp add: JoinByte_SplitByte)
  with n show ?thesis using dns_label_graph by (fastforce simp: dns_name_def list_all_iff)
qed

lemma SplitByte_snoc: "SplitByte c (s @ [c]) = SplitByte c s @ [[]]"
  by (induction s) (auto split: list.splits)

lemma dns_name_lower:
  assumes "dns_name name"
  shows "TrimSpace name = name" "lower L name = name" "TrimSuffix name ''.'' = name" "name \<noteq> []"
proof -
  have g: "list_all is_graph name"
    using dns_name_chars [OF assms] by (fastforce simp: list_all_iff is_graph_def is_lower_def is_digit_def byte_def)
  then show "TrimSpace name = name" by (rule TrimSpace_graph)
  have "\<not> is_upper c" if "c \<in> set name" for c
    using dns_name_chars [OF assms that] by (auto simp: is_upper_def is_lower_def is_digit_def byte_def)
  then have "map ascii_lower name = name" by (simp add: map_idI ascii_lower_def)
  then show "lower L name = name" using graph_ascii [OF g] by (simp add: lower_def ToLower_def)
  show ne: "name \<noteq> []" using assms by (auto simp: dns_name_def)
  show "TrimSuffix name ''.'' = name"
  proof (rule ccontr)
    assume "TrimSuffix name ''.'' \<noteq> name"
    then obtain t where t: "name = t @ ''.''" by (auto simp: TrimSuffix_def HasSuffix_iff split: if_splits)
    then have "[] \<in> set (SplitByte CHR ''.'' name)" by (simp add: SplitByte_snoc)
    with assms show False by (auto simp: dns_name_def list_all_iff dns_label_def)
  qed
qed

lemma dns_name_ascii: "dns_name name \<Longrightarrow> is_ascii name"
  using dns_name_chars by (fastforce simp: is_ascii_set is_lower_def is_digit_def byte_def)

lemma normalizeDomain_Inr:
  "normalizeDomain L v = Inr n \<longleftrightarrow> n = TrimSuffix (lower L (TrimSpace v)) ''.'' \<and> dns_name n"
proof -
  have "label_ok = dns_label" using label_ok_iff by blast
  then show ?thesis
    by (auto simp: normalizeDomain_def dns_name_def Let_def Suc_le_eq split: if_splits)
qed

lemma normalize_domain_char: "normalizeDomain L v = Inr n \<Longrightarrow> dns_name n"
  unfolding normalizeDomain_Inr by blast

text \<open>C16: A domain is accepted exactly when, trimmed, in lower case and without one final dot, it is a
  host name of at most 253 bytes whose labels have 1 to 63 letters, digits and inner dashes; the result
  is that name, and a result is accepted again unchanged.\<close>

theorem normalize_domain_spec:
  "(normalizeDomain L value = Inr name \<longleftrightarrow>
      name = TrimSuffix (lower L (TrimSpace value)) ''.'' \<and> dns_name name) \<and>
   (dns_name name \<longleftrightarrow> normalizeDomain L name = Inr name)"
  using dns_name_lower [of name] unfolding normalizeDomain_Inr by metis

section \<open>Snapshots and streams\<close>

lemma parse_date_chars: "parse_date s \<noteq> None \<Longrightarrow> c \<in> set s \<Longrightarrow> is_digit c \<or> c = CHR ''-''"
proof -
  assume p: "parse_date s \<noteq> None" and c: "c \<in> set s"
  then have l: "length s = 10" "s ! 4 = CHR ''-''" "s ! 7 = CHR ''-''"
    and d: "list_all is_digit (take 4 s @ take 2 (drop 5 s) @ take 2 (drop 8 s))"
    by (auto simp: parse_date_def Let_def split: if_splits)
  from l(1) obtain y1 y2 y3 y4 e m1 m2 f d1 d2 where s: "s = [y1, y2, y3, y4, e, m1, m2, f, d1, d2]"
    by (auto simp: eval_nat_numeral length_Suc_conv)
  with l(2,3) have "e = CHR ''-''" "f = CHR ''-''" by simp_all
  moreover from s d have "list_all is_digit [y1, y2, y3, y4, m1, m2, d1, d2]" by simp
  ultimately show ?thesis using c s by auto
qed

lemma Atoi_hour:
  "(\<exists>v. Atoi hour = Some v \<and> \<not> (v < 0 \<or> 23 < v \<or> Itoa v \<noteq> hour)) \<longleftrightarrow> (\<exists>h<24. hour = Itoa (int h))"
proof
  assume "\<exists>v. Atoi hour = Some v \<and> \<not> (v < 0 \<or> 23 < v \<or> Itoa v \<noteq> hour)"
  then obtain v where "Atoi hour = Some v \<and> \<not> (v < 0 \<or> 23 < v \<or> Itoa v \<noteq> hour)" by blast
  then have "0 \<le> v" "v \<le> 23" "Itoa v = hour" by simp_all
  then show "\<exists>h<24. hour = Itoa (int h)" by (intro exI [of _ "nat v"]) auto
next
  assume "\<exists>h<24. hour = Itoa (int h)"
  then obtain h where "h < 24" "hour = Itoa (int h)" by auto
  then show "\<exists>v. Atoi hour = Some v \<and> \<not> (v < 0 \<or> 23 < v \<or> Itoa v \<noteq> hour)"
    using Atoi_Itoa [of "int h"] by (auto simp: min_int_def max_int_def)
qed

lemma snapshot_latest: "parse_date ''latest'' = None"
  by (simp add: parse_date_def)

lemma date_no_slash: "parse_date d \<noteq> None \<Longrightarrow> d \<noteq> [] \<and> CHR ''/'' \<notin> set d \<and> CHR ''.'' \<notin> set d"
proof -
  assume p: "parse_date d \<noteq> None"
  then have "d \<noteq> []" by (auto simp: parse_date_def)
  moreover have "c \<noteq> CHR ''/'' \<and> c \<noteq> CHR ''.''" if "c \<in> set d" for c
    using parse_date_chars [OF p that] by (auto simp: is_digit_def byte_def)
  ultimately show ?thesis by blast
qed

lemma hour_no_slash: "Itoa (int h) \<noteq> [] \<and> CHR ''/'' \<notin> set (Itoa (int h)) \<and> CHR ''.'' \<notin> set (Itoa (int h))"
proof -
  have "c \<noteq> CHR ''/'' \<and> c \<noteq> CHR ''.''" if "c \<in> set (digits 10 h)" for c
    using digits_10_digit [OF that] by (auto simp: is_digit_def byte_def)
  then show ?thesis by (auto simp: Itoa_def)
qed

lemma snapshotSegments_date:
  assumes "TrimSpace value \<noteq> ''latest''" "CHR ''/'' \<notin> set (TrimSpace value)"
  shows "snapshotSegments value =
    (if parse_date (TrimSpace value) = None then Inl BadDate else Inr [TrimSpace value])"
  using assms CutByte_absent [OF assms(2)] by (simp add: snapshotSegments_def Let_def)

lemma snapshotSegments_hour:
  assumes "TrimSpace value \<noteq> ''latest''" "TrimSpace value = date @ CHR ''/'' # hour" "CHR ''/'' \<notin> set date"
  shows "snapshotSegments value = Inr segments \<longleftrightarrow>
    parse_date date \<noteq> None \<and> segments = [date, hour] \<and> (\<exists>h<24. hour = Itoa (int h))"
proof -
  have "CutByte CHR ''/'' (TrimSpace value) = (date, hour, True)"
    unfolding assms(2) by (rule CutByte_append [OF assms(3)])
  then show ?thesis
    using assms(1) unfolding Atoi_hour [symmetric]
    by (auto simp: snapshotSegments_def Let_def split: option.splits if_splits)
qed

lemma snapshotSegments_Inr:
  "snapshotSegments value = Inr segments \<longleftrightarrow>
     TrimSpace value = ''latest'' \<and> segments = [''latest''] \<or>
     parse_date (TrimSpace value) \<noteq> None \<and> segments = [TrimSpace value] \<or>
     (\<exists>date. \<exists>h<24. TrimSpace value = date @ CHR ''/'' # Itoa (int h) \<and> parse_date date \<noteq> None \<and>
        segments = [date, Itoa (int h)])"
proof -
  let ?v = "TrimSpace value"
  consider (latest) "?v = ''latest''"
    | (date) "?v \<noteq> ''latest''" "CHR ''/'' \<notin> set ?v"
    | (hour) date hour where "?v \<noteq> ''latest''" "?v = date @ CHR ''/'' # hour" "CHR ''/'' \<notin> set date"
    by (metis split_list_first)
  then show ?thesis
  proof cases
    case latest
    then have "CHR ''/'' \<notin> set ?v" by simp
    then have "?v \<noteq> d @ CHR ''/'' # x" for d x by auto
    with latest show ?thesis using snapshot_latest by (simp add: snapshotSegments_def eq_commute)
  next
    case date
    then have "?v \<noteq> d @ CHR ''/'' # x" for d x by auto
    with date show ?thesis by (auto simp: snapshotSegments_date)
  next
    case (hour d x)
    then have "CHR ''/'' \<in> set ?v" by simp
    then have none: "parse_date ?v = None" using date_no_slash by blast
    have unique: "d' = d \<and> x' = x" if "?v = d' @ CHR ''/'' # x'" "parse_date d' \<noteq> None" for d' x'
      using that(1) date_no_slash [OF that(2)] hour(2,3) by (metis CutByte_append prod.inject)
    have "(\<exists>date. \<exists>h<24. ?v = date @ CHR ''/'' # Itoa (int h) \<and> parse_date date \<noteq> None \<and>
        segments = [date, Itoa (int h)]) \<longleftrightarrow>
        parse_date d \<noteq> None \<and> segments = [d, x] \<and> (\<exists>h<24. x = Itoa (int h))" (is "?l \<longleftrightarrow> ?r")
    proof
      assume ?l
      then obtain d' h where "h < 24" "?v = d' @ CHR ''/'' # Itoa (int h)" "parse_date d' \<noteq> None"
        "segments = [d', Itoa (int h)]" by blast
      with unique [of d' "Itoa (int h)"] show ?r by auto
    next
      assume ?r
      with hour(2) show ?l by auto
    qed
    with none snapshotSegments_hour [OF hour] hour(1) show ?thesis by simp
  qed
qed

text \<open>C36: A snapshot reference is accepted exactly when it is \<open>latest\<close>, a day of the calendar, or a day
  and an unpadded hour from 0 to 23; its segments joined by a slash are the trimmed input, and no
  segment contains a slash or a dot.\<close>

theorem snapshot_segments_spec:
  "(snapshotSegments value = Inr segments \<longleftrightarrow>
      TrimSpace value = ''latest'' \<and> segments = [''latest''] \<or>
      parse_date (TrimSpace value) \<noteq> None \<and> segments = [TrimSpace value] \<or>
      (\<exists>date. \<exists>h<24. TrimSpace value = date @ CHR ''/'' # Itoa (int h) \<and> parse_date date \<noteq> None \<and>
         segments = [date, Itoa (int h)])) \<and>
   (snapshotSegments value = Inr segments \<longrightarrow>
      JoinByte CHR ''/'' segments = TrimSpace value \<and>
      (\<forall>segment\<in>set segments. segment \<noteq> [] \<and> CHR ''/'' \<notin> set segment \<and> CHR ''.'' \<notin> set segment))"
proof -
  have "JoinByte CHR ''/'' segments = TrimSpace value \<and>
      (\<forall>segment\<in>set segments. segment \<noteq> [] \<and> CHR ''/'' \<notin> set segment \<and> CHR ''.'' \<notin> set segment)"
    if "snapshotSegments value = Inr segments"
    using that date_no_slash hour_no_slash unfolding snapshotSegments_Inr
    by (elim disjE exE conjE) auto
  with snapshotSegments_Inr [of "value" segments] show ?thesis by blast
qed

theorem snapshot_segments_spec_witness:
  "snapshotSegments ''2026-08-14/9'' = Inr [''2026-08-14'', ''9''] \<and>
   JoinByte CHR ''/'' [''2026-08-14'', ''9''] = TrimSpace ''2026-08-14/9''"
proof -
  have t: "TrimSpace ''2026-08-14/9'' = ''2026-08-14/9''"
    by (rule TrimSpace_graph) (simp add: is_graph_def byte_def)
  have "parse_date ''2026-08-14'' \<noteq> None"
    by (simp add: parse_date_def is_digit_def byte_def nat_value_def digit_val_def days_in_def)
  moreover have "Itoa (int 9) = ''9''" by (simp add: Itoa_def digits.simps digit_char_eval)
  ultimately have "\<exists>date. \<exists>h<24. TrimSpace ''2026-08-14/9'' = date @ CHR ''/'' # Itoa (int h) \<and>
      parse_date date \<noteq> None \<and> [''2026-08-14'', ''9''] = [date, Itoa (int h)]"
    by (intro exI [of _ "''2026-08-14''"] exI [of _ 9]) (simp add: t)
  then have "snapshotSegments ''2026-08-14/9'' = Inr [''2026-08-14'', ''9'']"
    by (intro snapshot_segments_spec [THEN conjunct1, THEN iffD2] disjI2)
  then show ?thesis using snapshot_segments_spec [THEN conjunct2] by blast
qed

text \<open>The names a stream answers to.\<close>

definition stream_names :: "FeedStream \<Rightarrow> string list" where
  "stream_names stream = StreamName stream # Aliases stream"

lemma stream_names_distinct: "distinct (concat (map stream_names feedStreams))"
  by code_simp

lemma find_stream_Inr:
  "distinct (concat (map stream_names streams)) \<Longrightarrow>
     find_stream name requireLive streams = Inr stream \<longleftrightarrow>
       stream \<in> set streams \<and> name \<in> set (stream_names stream) \<and> (requireLive \<longrightarrow> Live stream)"
proof (induction streams)
  case (Cons s streams)
  have here: "name = StreamName s \<or> contains (Aliases s) name \<longleftrightarrow> name \<in> set (stream_names s)"
    by (auto simp: contains_def stream_names_def list_ex_iff)
  show ?case
  proof (cases "name \<in> set (stream_names s)")
    case True
    then have "name \<notin> set (stream_names t)" if "t \<in> set streams" for t
      using Cons.prems that by auto
    with True here show ?thesis by auto
  next
    case False
    with here Cons show ?thesis by auto
  qed
qed simp

text \<open>A feed is found by its name or one of its aliases, in any case and with blanks around it; no
  two feeds share a name, so the answer does not depend on the order of the table; and where live data
  is required, exactly the feeds that have it are found.\<close>

theorem feed_stream_lookup:
  "normalizeFeedStream L value requireLive = Inr stream \<longleftrightarrow>
     stream \<in> set feedStreams \<and> lower L (TrimSpace value) \<in> set (stream_names stream) \<and>
     (requireLive \<longrightarrow> Live stream)"
  unfolding normalizeFeedStream_def by (rule find_stream_Inr [OF stream_names_distinct])

theorem feed_stream_lookup_witness:
  "\<exists>stream. normalizeFeedStream \<lparr>lowerUnicode = id, urlParse = (\<lambda>_. None), parseRequestURI = (\<lambda>_. None)\<rparr>
     ''TLS'' True = Inr stream \<and> StreamName stream = ''honeypot_https'' \<and> Live stream"
proof -
  let ?L = "\<lparr>lowerUnicode = id, urlParse = (\<lambda>_. None), parseRequestURI = (\<lambda>_. None)\<rparr>"
  have "TrimSpace ''TLS'' = ''TLS''" by (rule TrimSpace_graph) (simp add: is_graph_def byte_def)
  moreover have "lower ?L ''TLS'' = ''tls''" by code_simp
  moreover have "feedStreams ! 4 \<in> set feedStreams" by (rule nth_mem) code_simp
  moreover have "''tls'' \<in> set (stream_names (feedStreams ! 4)) \<and> Live (feedStreams ! 4) \<and>
      StreamName (feedStreams ! 4) = ''honeypot_https''" by code_simp
  ultimately show ?thesis using feed_stream_lookup [of ?L "''TLS''" True "feedStreams ! 4"] by auto
qed

end
