(* ===== verification/Tools.thy ===== *)
theory Tools
  imports Tool_Api Tool_Inputs
begin

text \<open>
  Component \<open>internal/mcpserver\<close>: the tools an MCP client can call (\<open>server.go\<close>, \<open>feeds.go\<close>,
  \<open>legacy.go\<close>). A handler checks its input, makes at most one call of the interface \<open>API\<close>, and returns
  a summary and a value. The SDK matches a call to a registered tool by name and decodes its
  arguments, so a call is a value of \<open>tool_call\<close>. The protobuf-to-JSON encoder is a field of
  \<open>toolkit\<close>, and so is \<open>sort.Slice\<close>, whose order among equal names is not specified.
\<close>

section \<open>Schemas and annotations\<close>

text \<open>The two patterns \<open>^[0-9A-Fa-f:.]+$\<close> and \<open>^[A-Za-z0-9.-]+$\<close>; an object rejects other properties.\<close>

datatype char_class = AddressClass | DomainClass

datatype schema =
    StringSchema nat nat char_class string
  | ArraySchema schema nat nat
  | ObjectSchema "(string \<times> schema) list" "string list"

definition objectInputSchema :: "(string \<times> schema) list \<Rightarrow> string list \<Rightarrow> schema" where
  "objectInputSchema properties required = ObjectSchema properties required"

definition emptyInputSchema :: schema where
  "emptyInputSchema = ObjectSchema [] []"

definition ipStringSchema :: schema where
  "ipStringSchema = StringSchema 2 45 AddressClass ''IPv4 or IPv6 address''"

definition ipsInputSchema :: schema where
  "ipsInputSchema = objectInputSchema [(''ips'', ArraySchema ipStringSchema 1 1000)] [''ips'']"

definition domainInputSchema :: schema where
  "domainInputSchema =
     objectInputSchema [(''domain'', StringSchema 1 254 DomainClass ''ASCII or punycode domain name'')] [''domain'']"

record tool =
  ToolName :: string
  ToolTitle :: string
  ToolDescription :: string
  ReadOnlyHint :: bool
  DestructiveHint :: bool
  IdempotentHint :: bool
  OpenWorldHint :: bool
  InputSchema :: "schema option"

definition make_tool :: "string \<Rightarrow> string \<Rightarrow> string \<Rightarrow> bool \<Rightarrow> schema option \<Rightarrow> tool" where
  "make_tool name title description metered inputSchema =
     \<lparr>ToolName = name, ToolTitle = title, ToolDescription = description, ReadOnlyHint = \<not> metered,
      DestructiveHint = metered, IdempotentHint = \<not> metered, OpenWorldHint = True, InputSchema = inputSchema\<rparr>"

section \<open>Summaries\<close>

definition fallback :: "string \<Rightarrow> string \<Rightarrow> string" where
  "fallback value replacement = (if TrimSpace value = [] then replacement else value)"

definition accountSummary :: "Account \<Rightarrow> string" where
  "accountSummary account =
     (let identity = TrimSpace (FirstName account @ '' '' @ LastName account);
          identity = (if identity = [] then Email account else identity);
          organization = OrgName (OrganizationOf account);
          organization = (if organization = [] then ''no organization'' else organization)
      in ''Synthient account '' @ identity @ '' ('' @ organization @ ''): '' @ Itoa (Credits (Quota account)) @
         '' lookup credits remain; quota resets in '' @ Itoa (ResetsIn (Quota account)) @ '' seconds.'')"

fun ipSummary :: "IP list \<Rightarrow> string" where
  "ipSummary [ip] =
     IPText ip @ '': risk score '' @ Itoa (RiskScore ip) @ '', ASN '' @ Itoa (Asn ip) @ '', country '' @
     fallback (Country ip) ''unknown'' @ ''.''"
| "ipSummary ips = ''Retrieved Synthient intelligence for '' @ Itoa (int (length ips)) @ '' IP addresses.''"

definition domainSummary :: "Domain \<Rightarrow> string" where
  "domainSummary domain =
     DomainName domain @ '': status '' @ fallback (DomainStatus domain) ''unknown'' @ '', '' @
     Itoa (Events24H domain) @ '' events in the last 24 hours, '' @ Itoa (UniqueIPs24H domain) @
     '' unique IPs in the last 24 hours.''"

definition bool_text :: "bool \<Rightarrow> string" where
  "bool_text b = (if b then ''true'' else ''false'')"

section \<open>gRPC schemas\<close>

record GRPCFile =
  GFileName :: string
  GFilePackage :: string

record GRPCMethod =
  GMethodName :: string
  GMethodInput :: string
  GMethodOutput :: string

record GRPCService =
  GServiceName :: string
  GServiceMethods :: "GRPCMethod list"

record GRPCSchemaOutput =
  GEndpoint :: string
  GSymbols :: "string list"
  GFiles :: "GRPCFile list"
  GServices :: "GRPCService list"
  GDescriptorJSON :: string

record toolkit =
  golib_of :: golib
  protojson :: "FileDescriptor list \<Rightarrow> string option"
  sort_slice :: "GRPCService list \<Rightarrow> GRPCService list"

definition maxDescriptorBytes :: nat where "maxDescriptorBytes = 2 ^ 20"

definition summarize_service :: "string \<Rightarrow> ServiceDescriptor \<Rightarrow> GRPCService" where
  "summarize_service package service =
     \<lparr>GServiceName = (if package \<noteq> [] then package @ ''.'' @ ServiceName service else ServiceName service),
      GServiceMethods =
        map (\<lambda>m. \<lparr>GMethodName = MethodName m, GMethodInput = TrimPrefix (InputType m) ''.'',
                  GMethodOutput = TrimPrefix (OutputType m) ''.''\<rparr>) (ServiceMethods service)\<rparr>"

definition summarizeServices :: "toolkit \<Rightarrow> FileDescriptor list \<Rightarrow> GRPCService list" where
  "summarizeServices K files =
     sort_slice K (concat (map (\<lambda>file. map (summarize_service (FilePackage file)) (FileServices file)) files))"

definition grpcSchemaOutput :: "toolkit \<Rightarrow> GRPCSchemaResult \<Rightarrow> bool \<Rightarrow> (tool_error, GRPCSchemaOutput) result" where
  "grpcSchemaOutput K schema includeDescriptor =
     (case DescriptorSet schema of
        None \<Rightarrow> Inl NoDescriptorSet
      | Some files \<Rightarrow>
          let output = \<lparr>GEndpoint = SchemaEndpoint schema, GSymbols = SchemaSymbols schema,
                        GFiles = map (\<lambda>f. \<lparr>GFileName = FileName f, GFilePackage = FilePackage f\<rparr>) files,
                        GServices = summarizeServices K files, GDescriptorJSON = []\<rparr>
          in if includeDescriptor
             then (case protojson K files of
                     None \<Rightarrow> Inl DescriptorEncoding
                   | Some descriptor \<Rightarrow>
                       if maxDescriptorBytes < length descriptor then Inl DescriptorTooLarge
                       else Inr (output\<lparr>GDescriptorJSON := descriptor\<rparr>))
             else Inr output)"

section \<open>Arguments\<close>

record Options =
  LegacyToolNames :: bool
  SampleTimeout :: int

fun normalize_each :: "nat \<Rightarrow> string list \<Rightarrow> (tool_error, string list) result" where
  "normalize_each index [] = Inr []"
| "normalize_each index (item # items) =
     (case normalizeIP item of
        Inl e \<Rightarrow> Inl (AtIndex index e)
      | Inr ip \<Rightarrow> attempt (normalize_each (Suc index) items) (\<lambda>ips. Inr (ip # ips)))"

definition ip_arguments :: "string list \<Rightarrow> (tool_error, string list) result" where
  "ip_arguments ips =
     (if length ips < 1 \<or> 1000 < length ips then Inl BadIPCount else normalize_each 0 ips)"

definition snapshots_arguments ::
  "golib \<Rightarrow> string \<Rightarrow> int \<Rightarrow> string \<Rightarrow> (tool_error, FeedStream \<times> int) result" where
  "snapshots_arguments L stream limit cursor =
     attempt (normalizeFeedStream L stream False) (\<lambda>stream.
       let limit = (if limit = 0 then 100 else limit)
       in if limit < 1 \<or> 500 < limit then Inl BadLimit
          else if 2048 < length cursor then Inl BadCursor
          else Inr (stream, limit))"

definition meta_arguments :: "golib \<Rightarrow> string \<Rightarrow> string \<Rightarrow> (tool_error, FeedStream \<times> string list) result" where
  "meta_arguments L stream date =
     attempt (normalizeFeedStream L stream False) (\<lambda>stream.
     attempt (snapshotSegments date) (\<lambda>segments. Inr (stream, segments)))"

definition defaultSampleCount :: int where "defaultSampleCount = 10"
definition maxSampleCount :: int where "maxSampleCount = 50"
definition defaultSampleTimeout :: int where "defaultSampleTimeout = 10"
definition maxSampleTimeout :: int where "maxSampleTimeout = 15"
definition maxSampleOutputBytes :: int where "maxSampleOutputBytes = 2 ^ 20"

text \<open>A duration is in nanoseconds.\<close>

definition maximum_timeout :: "Options \<Rightarrow> int" where
  "maximum_timeout options =
     (if 0 < SampleTimeout options
      then (let seconds = quot (SampleTimeout options) (10 ^ 9) in if seconds < 1 then 1 else seconds)
      else maxSampleTimeout)"

definition sample_arguments ::
  "golib \<Rightarrow> Options \<Rightarrow> string \<Rightarrow> int \<Rightarrow> int \<Rightarrow> (string \<times> string) list \<Rightarrow>
     (tool_error, FeedStream \<times> int \<times> int) result" where
  "sample_arguments L options stream count timeout filters =
     attempt (normalizeFeedStream L stream True) (\<lambda>stream.
       let count = (if count = 0 then defaultSampleCount else count)
       in if count < 1 \<or> maxSampleCount < count then Inl BadSampleCount
          else
            (let maximum = maximum_timeout options;
                 timeout = (if timeout = 0 then min defaultSampleTimeout maximum else timeout)
             in if timeout < 1 \<or> maximum < timeout then Inl (BadTimeout maximum)
                else attempt (validateFilters filters) (\<lambda>_. Inr (stream, count, timeout))))"

section \<open>Handlers\<close>

datatype tool_output =
    AccountOut Account
  | IPsOut "IP list"
  | IPOut IP
  | ResultsOut "IP list"
  | DomainOut Domain
  | StreamsOut "FeedStream list"
  | PageOut FeedSnapshotsPage
  | MetaOut FeedSnapshotMeta
  | SampleOut string int "object option list" bool
  | SchemaOut GRPCSchemaOutput

type_synonym 'w handler = "('w, tool_error, string \<times> tool_output) action"

text \<open>The error of a call is the error of the tool.\<close>

definition call_api :: "('w, upstream_error, 'a) action \<Rightarrow> ('w, tool_error, 'a) action" where
  "call_api act w = (case act w of (r, w') \<Rightarrow> (map_sum Upstream id r, w'))"

text \<open>A handler: check the arguments, make the call, turn its value into the result.\<close>

definition handle ::
  "(tool_error, 'x) result \<Rightarrow> ('x \<Rightarrow> ('w, upstream_error, 'a) action) \<Rightarrow>
     ('x \<Rightarrow> 'a \<Rightarrow> (tool_error, string \<times> tool_output) result) \<Rightarrow> 'w handler" where
  "handle arguments operation finish =
     attempt_in (give arguments) (\<lambda>x. attempt_in (call_api (operation x)) (\<lambda>value. give (finish x value)))"

definition get_account :: "'w API \<Rightarrow> 'w handler" where
  "get_account api =
     handle (Inr ()) (\<lambda>_. AccountOp api) (\<lambda>_ value. Inr (accountSummary value, AccountOut value))"

text \<open>One address is looked up on its own, several in one batch.\<close>

definition lookup_any :: "'w API \<Rightarrow> string list \<Rightarrow> ('w, upstream_error, IP list) action" where
  "lookup_any api ips =
     (if length ips = 1
      then attempt_in (LookupIPOp api (hd ips)) (\<lambda>value. give (Inr [value]))
      else LookupIPsOp api ips)"

definition lookup_ip :: "'w API \<Rightarrow> string list \<Rightarrow> 'w handler" where
  "lookup_ip api ips =
     handle (ip_arguments ips) (lookup_any api) (\<lambda>_ results. Inr (ipSummary results, IPsOut results))"

definition lookup_domain :: "golib \<Rightarrow> 'w API \<Rightarrow> string \<Rightarrow> 'w handler" where
  "lookup_domain L api domain =
     handle (normalizeDomain L domain) (LookupDomainOp api)
       (\<lambda>_ value. Inr (domainSummary value, DomainOut value))"

definition list_feed_streams :: "'w handler" where
  "list_feed_streams =
     give (Inr (''Synthient exposes '' @ Itoa (int (length feedStreams)) @ '' feed streams; '' @
                Itoa (int liveStreamCount) @ '' support live sampling.'', StreamsOut feedStreams))"

definition list_feed_snapshots :: "golib \<Rightarrow> 'w API \<Rightarrow> string \<Rightarrow> int \<Rightarrow> string \<Rightarrow> 'w handler" where
  "list_feed_snapshots L api stream limit cursor =
     handle (snapshots_arguments L stream limit cursor)
       (\<lambda>(stream, limit). FeedSnapshotsOp api (StreamName stream) limit cursor)
       (\<lambda>(stream, limit) page.
          Inr (''Found '' @ Itoa (int (length (Feeds page))) @ '' '' @ StreamName stream @
               '' snapshots; next cursor present: '' @ bool_text (NextCursor page \<noteq> []) @ ''.'', PageOut page))"

definition feed_snapshot_meta :: "golib \<Rightarrow> 'w API \<Rightarrow> string \<Rightarrow> string \<Rightarrow> 'w handler" where
  "feed_snapshot_meta L api stream date =
     handle (meta_arguments L stream date)
       (\<lambda>(stream, segments). FeedSnapshotMetaOp api (StreamName stream) segments)
       (\<lambda>(stream, segments) meta.
          Inr (StreamName stream @ '' snapshot '' @ MetaID meta @ '': '' @ Itoa (Rows meta) @ '' rows, '' @
               Itoa (Size meta) @ '' bytes, checksum '' @ Checksum meta @ ''.'', MetaOut meta))"

definition sample_stream ::
  "golib \<Rightarrow> 'w API \<Rightarrow> Options \<Rightarrow> string \<Rightarrow> int \<Rightarrow> int \<Rightarrow> (string \<times> string) list \<Rightarrow> 'w handler" where
  "sample_stream L api options stream count timeout filters =
     handle (sample_arguments L options stream count timeout filters)
       (\<lambda>(stream, count, timeout).
          SampleStreamOp api timeout (StreamName stream) count maxSampleOutputBytes filters)
       (\<lambda>(stream, count, timeout) (events, truncated).
          Inr (''Collected '' @ Itoa (int (length events)) @ '' matching '' @ StreamName stream @
               '' events; truncated: '' @ bool_text truncated @ ''.'',
               SampleOut (StreamName stream) (int (length events)) events truncated))"

definition grpc_schema :: "toolkit \<Rightarrow> 'w API \<Rightarrow> string list \<Rightarrow> bool \<Rightarrow> 'w handler" where
  "grpc_schema K api symbols includeDescriptor =
     handle (validateSymbols symbols) (\<lambda>_. GRPCSchemaOp api 15 symbols)
       (\<lambda>_ schema. attempt (grpcSchemaOutput K schema includeDescriptor) (\<lambda>output.
          Inr (''Synthient gRPC reflection returned '' @ Itoa (int (length (GServices output))) @
               '' services across '' @ Itoa (int (length (GFiles output))) @ '' files.'', SchemaOut output)))"

definition synthient_lookup_ip :: "'w API \<Rightarrow> string \<Rightarrow> 'w handler" where
  "synthient_lookup_ip api ip =
     handle (normalizeIP ip) (LookupIPOp api) (\<lambda>_ value. Inr (ipSummary [value], IPOut value))"

definition synthient_lookup_ips :: "'w API \<Rightarrow> string list \<Rightarrow> 'w handler" where
  "synthient_lookup_ips api ips =
     handle (ip_arguments ips) (LookupIPsOp api) (\<lambda>_ results. Inr (ipSummary results, ResultsOut results))"

section \<open>The server\<close>

record mcp_server =
  ServerName :: string
  ServerTitle :: string
  Instructions :: string
  Tools :: "tool list"

definition feed_tools :: "tool list" where
  "feed_tools =
     [make_tool ''list_feed_streams'' ''List Synthient feeds''
        ''List supported Synthient snapshot and live feed streams, aliases, and required scopes.'' False None,
      make_tool ''list_feed_snapshots'' ''List feed snapshots''
        ''List daily and hourly Parquet snapshots for a Synthient feed, newest first, with cursor pagination.'' False None,
      make_tool ''feed_snapshot_meta'' ''Get feed snapshot metadata''
        ''Get checksum, byte size, row count, schema, and canonical time for one Synthient Parquet snapshot.'' False None,
      make_tool ''sample_stream'' ''Sample a live feed''
        ''Collect a small, bounded, optionally filtered sample from a real-time Synthient feed.'' False None,
      make_tool ''grpc_schema'' ''Inspect Synthient gRPC schema''
        ''Fetch an allowlisted Synthient protobuf schema through TLS gRPC reflection and return a bounded service summary.'' False None]"

definition legacy_tools :: "tool list" where
  "legacy_tools =
     [make_tool ''synthient_account'' ''Get Synthient account (legacy)''
        ''Legacy compatibility alias for get_account.'' False (Some emptyInputSchema),
      make_tool ''synthient_lookup_ip'' ''Look up one IP (legacy)''
        ''Legacy single-address compatibility alias; prefer lookup_ip with an ips array.'' True None,
      make_tool ''synthient_lookup_ips'' ''Look up multiple IPs (legacy)''
        ''Legacy batch compatibility alias; prefer lookup_ip with an ips array.'' True None,
      make_tool ''synthient_lookup_domain'' ''Look up a domain (legacy)''
        ''Legacy compatibility alias for lookup_domain.'' True None]"

definition New :: "Options option \<Rightarrow> mcp_server" where
  "New options =
     (let legacy = (case options of None \<Rightarrow> False | Some o' \<Rightarrow> LegacyToolNames o')
      in \<lparr>ServerName = ''synthient-mcp-go'', ServerTitle = ''Synthient Intelligence'',
          Instructions = ''Use these tools to enrich IP addresses, inspect domain honeypot activity, discover feed snapshots, collect small live-feed samples, inspect protobuf services, and check account scopes and quota. Intelligence lookups are metered and can consume account credit.'',
          Tools =
            [make_tool ''get_account'' ''Get Synthient account''
               ''Return account ownership, granted API scopes, remaining lookup credits, and quota reset timing for the supplied Synthient API key.''
               False (Some emptyInputSchema),
             make_tool ''lookup_ip'' ''Look up IP intelligence''
               ''Enrich 1 to 1,000 IPv4 or IPv6 addresses with Synthient intelligence. A successful lookup consumes lookup credit; multiple addresses use discounted batch billing.''
               True (Some ipsInputSchema),
             make_tool ''lookup_domain'' ''Look up domain intelligence''
               ''Return Synthient Helios honeypot intelligence for a domain. A successful lookup consumes lookup credit.''
               True (Some domainInputSchema)] @
            feed_tools @ (if legacy then legacy_tools else [])\<rparr>)"

datatype tool_call =
    GetAccount
  | LookupIP "string list"
  | LookupDomain string
  | ListFeedStreams
  | ListFeedSnapshots string int string
  | FeedSnapshotMetaOf string string
  | SampleStream string int int "(string \<times> string) list"
  | GRPCSchema "string list" bool
  | LegacyAccount
  | LegacyLookupIP string
  | LegacyLookupIPs "string list"
  | LegacyLookupDomain string

fun tool_name :: "tool_call \<Rightarrow> string" where
  "tool_name GetAccount = ''get_account''"
| "tool_name (LookupIP ips) = ''lookup_ip''"
| "tool_name (LookupDomain domain) = ''lookup_domain''"
| "tool_name ListFeedStreams = ''list_feed_streams''"
| "tool_name (ListFeedSnapshots stream limit cursor) = ''list_feed_snapshots''"
| "tool_name (FeedSnapshotMetaOf stream date) = ''feed_snapshot_meta''"
| "tool_name (SampleStream stream count timeout filters) = ''sample_stream''"
| "tool_name (GRPCSchema symbols includeDescriptor) = ''grpc_schema''"
| "tool_name LegacyAccount = ''synthient_account''"
| "tool_name (LegacyLookupIP ip) = ''synthient_lookup_ip''"
| "tool_name (LegacyLookupIPs ips) = ''synthient_lookup_ips''"
| "tool_name (LegacyLookupDomain domain) = ''synthient_lookup_domain''"

fun handler :: "toolkit \<Rightarrow> 'w API \<Rightarrow> Options \<Rightarrow> tool_call \<Rightarrow> 'w handler" where
  "handler K api options GetAccount = get_account api"
| "handler K api options (LookupIP ips) = lookup_ip api ips"
| "handler K api options (LookupDomain domain) = lookup_domain (golib_of K) api domain"
| "handler K api options ListFeedStreams = list_feed_streams"
| "handler K api options (ListFeedSnapshots stream limit cursor) =
     list_feed_snapshots (golib_of K) api stream limit cursor"
| "handler K api options (FeedSnapshotMetaOf stream date) = feed_snapshot_meta (golib_of K) api stream date"
| "handler K api options (SampleStream stream count timeout filters) =
     sample_stream (golib_of K) api options stream count timeout filters"
| "handler K api options (GRPCSchema symbols includeDescriptor) = grpc_schema K api symbols includeDescriptor"
| "handler K api options LegacyAccount = get_account api"
| "handler K api options (LegacyLookupIP ip) = synthient_lookup_ip api ip"
| "handler K api options (LegacyLookupIPs ips) = synthient_lookup_ips api ips"
| "handler K api options (LegacyLookupDomain domain) = lookup_domain (golib_of K) api domain"

text \<open>The SDK runs the handler of a registered tool; any other name is its own error.\<close>

definition registered :: "Options \<Rightarrow> tool_call \<Rightarrow> bool" where
  "registered options call \<longleftrightarrow> tool_name call \<in> set (map ToolName (Tools (New (Some options))))"

section \<open>What a call does to the world\<close>

lemma snd_call_api: "snd (call_api act w) = snd (act w)"
  by (simp add: call_api_def split: prod.split)

lemma handle_world:
  "snd (handle arguments operation finish w) =
     (case arguments of Inl e \<Rightarrow> w | Inr x \<Rightarrow> snd (operation x w))"
proof (cases arguments)
  case (Inr x)
  then have "snd (handle arguments operation finish w) =
      snd (attempt_in (call_api (operation x)) (\<lambda>value. give (finish x value)) w)"
    by (simp add: handle_def attempt_in_give)
  with Inr show ?thesis by (simp add: attempt_in_finish snd_call_api)
qed (simp add: handle_def attempt_in_give)

lemma handle_rejects: "handle (Inl e) operation finish w = (Inl e, w)"
  by (simp add: handle_def attempt_in_give)

text \<open>The check of a call's arguments, before anything is sent.\<close>

fun argument_check :: "toolkit \<Rightarrow> Options \<Rightarrow> tool_call \<Rightarrow> (tool_error, unit) result" where
  "argument_check K options (LookupIP ips) = map_sum id (\<lambda>_. ()) (ip_arguments ips)"
| "argument_check K options (LookupDomain domain) = map_sum id (\<lambda>_. ()) (normalizeDomain (golib_of K) domain)"
| "argument_check K options (ListFeedSnapshots stream limit cursor) =
     map_sum id (\<lambda>_. ()) (snapshots_arguments (golib_of K) stream limit cursor)"
| "argument_check K options (FeedSnapshotMetaOf stream date) =
     map_sum id (\<lambda>_. ()) (meta_arguments (golib_of K) stream date)"
| "argument_check K options (SampleStream stream count timeout filters) =
     map_sum id (\<lambda>_. ()) (sample_arguments (golib_of K) options stream count timeout filters)"
| "argument_check K options (GRPCSchema symbols includeDescriptor) = validateSymbols symbols"
| "argument_check K options (LegacyLookupIP ip) = map_sum id (\<lambda>_. ()) (normalizeIP ip)"
| "argument_check K options (LegacyLookupIPs ips) = map_sum id (\<lambda>_. ()) (ip_arguments ips)"
| "argument_check K options (LegacyLookupDomain domain) = map_sum id (\<lambda>_. ()) (normalizeDomain (golib_of K) domain)"
| "argument_check K options _ = Inr ()"

lemmas handler_defs =
  get_account_def lookup_ip_def lookup_domain_def list_feed_snapshots_def feed_snapshot_meta_def
  sample_stream_def grpc_schema_def synthient_lookup_ip_def synthient_lookup_ips_def

lemma map_sum_Inl: "map_sum f g r = Inl e \<longleftrightarrow> (\<exists>d. r = Inl d \<and> e = f d)"
  by (cases r) auto

lemma handler_rejects:
  "argument_check K options call = Inl e \<Longrightarrow> handler K api options call w = (Inl e, w)"
  by (cases call) (auto simp: handler_defs handle_rejects map_sum_Inl)

context api_contract
begin

lemma lookup_any_behaves: "behaves ok spent (lookup_any api ips)"
  using lookup_ips lookup_ip by (auto simp: behaves_def lookup_any_def attempt_in_finish)

lemma handle_behaves:
  "(\<And>x. behaves ok spent (operation x)) \<Longrightarrow> behaves ok spent (handle arguments operation finish)"
  by (simp add: behaves_def handle_world split: sum.split)

lemma handler_behaves: "behaves ok spent (handler K api options call)"
  by (cases call)
    (auto simp: handler_defs list_feed_streams_def behaves_give operations lookup_any_behaves
      intro!: handle_behaves split: prod.splits)

end

section \<open>Properties\<close>

definition metered_tools :: "string list" where
  "metered_tools =
     [''lookup_ip'', ''lookup_domain'', ''synthient_lookup_ip'', ''synthient_lookup_ips'', ''synthient_lookup_domain'']"

definition all_tools :: "tool list" where
  "all_tools = Tools (New None) @ legacy_tools"

lemma tools_legacy:
  "Tools (New (Some options)) = Tools (New None) @ (if LegacyToolNames options then legacy_tools else [])"
  by (simp add: New_def)

lemma make_tool_simps [simp]:
  "ToolName (make_tool n t d m i) = n" "DestructiveHint (make_tool n t d m i) = m"
  "ReadOnlyHint (make_tool n t d m i) = (\<not> m)" "IdempotentHint (make_tool n t d m i) = (\<not> m)"
  by (simp_all add: make_tool_def)

lemma tool_names:
  "map ToolName (Tools (New None)) =
     [''get_account'', ''lookup_ip'', ''lookup_domain'', ''list_feed_streams'', ''list_feed_snapshots'',
      ''feed_snapshot_meta'', ''sample_stream'', ''grpc_schema'']"
  "map ToolName legacy_tools =
     [''synthient_account'', ''synthient_lookup_ip'', ''synthient_lookup_ips'', ''synthient_lookup_domain'']"
  by (simp_all add: New_def feed_tools_def legacy_tools_def)

lemma registry_names:
  "map ToolName (Tools (New (Some options))) =
     [''get_account'', ''lookup_ip'', ''lookup_domain'', ''list_feed_streams'', ''list_feed_snapshots'',
      ''feed_snapshot_meta'', ''sample_stream'', ''grpc_schema''] @
     (if LegacyToolNames options
      then [''synthient_account'', ''synthient_lookup_ip'', ''synthient_lookup_ips'', ''synthient_lookup_domain'']
      else [])"
  by (simp only: tools_legacy map_append tool_names if_distrib [of "map ToolName"] list.map)

lemma all_tools_annotated:
  "list_all (\<lambda>t. (DestructiveHint t \<longleftrightarrow> ToolName t \<in> set metered_tools) \<and> (ReadOnlyHint t \<longleftrightarrow> \<not> DestructiveHint t) \<and>
     (IdempotentHint t \<longleftrightarrow> \<not> DestructiveHint t)) all_tools"
  by (simp add: all_tools_def New_def feed_tools_def legacy_tools_def metered_tools_def)

lemma registered_iff:
  "registered options call \<longleftrightarrow> LegacyToolNames options \<or> tool_name call \<notin> set (map ToolName legacy_tools)"
  unfolding registered_def registry_names tool_names
  by (cases call; cases "LegacyToolNames options") simp_all

text \<open>The tools have distinct names. Exactly the lookups are annotated as metered, that is
  destructive and neither read-only nor idempotent. A call can reach its handler exactly when its tool
  is not one of the legacy names, or these are enabled.\<close>

theorem tools_registry:
  "distinct (map ToolName (Tools (New (Some options)))) \<and>
   (\<forall>t\<in>set (Tools (New (Some options))).
      (DestructiveHint t \<longleftrightarrow> ToolName t \<in> set metered_tools) \<and>
      (ReadOnlyHint t \<longleftrightarrow> \<not> DestructiveHint t) \<and> (IdempotentHint t \<longleftrightarrow> \<not> DestructiveHint t)) \<and>
   (registered options call \<longleftrightarrow> LegacyToolNames options \<or> tool_name call \<notin> set (map ToolName legacy_tools))"
proof -
  have "distinct (map ToolName (Tools (New (Some options))))"
    unfolding registry_names by simp
  moreover have "set (Tools (New (Some options))) \<subseteq> set all_tools"
    unfolding tools_legacy all_tools_def by auto
  ultimately show ?thesis
    using all_tools_annotated registered_iff unfolding list_all_iff by blast
qed

theorem tools_registry_witness:
  "\<not> registered \<lparr>LegacyToolNames = False, SampleTimeout = 0\<rparr> LegacyAccount \<and>
   registered \<lparr>LegacyToolNames = True, SampleTimeout = 0\<rparr> LegacyAccount"
  using tools_registry [of "\<lparr>LegacyToolNames = False, SampleTimeout = 0\<rparr>" LegacyAccount]
    tools_registry [of "\<lparr>LegacyToolNames = True, SampleTimeout = 0\<rparr>" LegacyAccount]
  by (simp add: legacy_tools_def)



lemma checked_Inr_iff:
  "(if p then Inl a else if q then Inl b else attempt v (\<lambda>_. Inr (x, y, z))) = Inr (x', y', z') \<longleftrightarrow>
     \<not> p \<and> \<not> q \<and> (\<exists>u. v = Inr u) \<and> x = x' \<and> y = y' \<and> z = z'"
  by (auto simp: attempt_Inr_iff)

lemma sample_arguments_Inr:
  assumes "sample_arguments L options stream count timeout filters = Inr (feed, events, seconds)"
  shows "feed \<in> set feedStreams \<and> Live feed \<and> 1 \<le> events \<and> events \<le> 50 \<and> 1 \<le> seconds \<and>
    seconds \<le> maximum_timeout options \<and> validateFilters filters = Inr ()"
proof -
  let ?c = "if count = 0 then defaultSampleCount else count" and ?m = "maximum_timeout options"
  let ?t = "if timeout = 0 then min defaultSampleTimeout ?m else timeout"
  obtain f where f: "normalizeFeedStream L stream True = Inr f"
    and r: "(if ?c < 1 \<or> maxSampleCount < ?c then Inl BadSampleCount
             else if ?t < 1 \<or> ?m < ?t then Inl (BadTimeout ?m)
             else attempt (validateFilters filters) (\<lambda>_. Inr (f, ?c, ?t))) = Inr (feed, events, seconds)"
    using assms unfolding sample_arguments_def Let_def attempt_Inr_iff by blast
  have g: "\<not> (?c < 1 \<or> maxSampleCount < ?c)" "\<not> (?t < 1 \<or> ?m < ?t)" "\<exists>u. validateFilters filters = Inr u"
    and e: "f = feed" "?c = events" "?t = seconds"
    using r unfolding checked_Inr_iff by blast+
  have "1 \<le> events" "events \<le> maxSampleCount" "1 \<le> seconds" "seconds \<le> ?m"
    using g(1,2) unfolding e by linarith+
  moreover have "f \<in> set feedStreams \<and> Live f"
    using find_stream_Inr [OF stream_names_distinct, THEN iffD1, OF f [unfolded normalizeFeedStream_def]] by simp
  ultimately show ?thesis using g(3) e(1) by (simp add: maxSampleCount_def)
qed

lemma maximum_timeout_cases:
  "maximum_timeout options = (if 0 < SampleTimeout options then max 1 (SampleTimeout options div 10 ^ 9) else 15)"
  by (simp add: maximum_timeout_def maxSampleTimeout_def quot_nonneg Let_def max_def not_less)


definition example_options :: Options where
  "example_options = \<lparr>LegacyToolNames = False, SampleTimeout = 0\<rparr>"

definition example_golib :: golib where
  "example_golib = \<lparr>lowerUnicode = id, urlParse = (\<lambda>_. None), parseRequestURI = (\<lambda>_. None)\<rparr>"

lemma example_tls: "normalizeFeedStream example_golib ''tls'' True = Inr (feedStreams ! 4)"
proof -
  have "TrimSpace ''tls'' = ''tls''" by (rule TrimSpace_graph) (simp add: is_graph_def byte_def)
  moreover have "lower example_golib ''tls'' = ''tls''" by code_simp
  moreover have "feedStreams ! 4 \<in> set feedStreams" by (rule nth_mem) code_simp
  moreover have "''tls'' \<in> set (stream_names (feedStreams ! 4)) \<and> Live (feedStreams ! 4)" by code_simp
  ultimately show ?thesis unfolding normalizeFeedStream_def find_stream_Inr [OF stream_names_distinct] by simp
qed


end
