(* ===== verification/Tool_Schemas.thy ===== *)
theory Tool_Schemas
  imports Tools "HOL-Library.Multiset" "HOL-Library.List_Lexorder" "HOL-Library.Char_ord"
begin

text \<open>
  The meaning of the tools' input schemas and how it agrees with the handlers' own checks; what the
  summary of a gRPC schema contains.
\<close>

section \<open>What the schemas say\<close>

text \<open>The meaning of the schemas the tools declare, as JSON Schema defines it.\<close>

fun in_class :: "char_class \<Rightarrow> char \<Rightarrow> bool" where
  "in_class AddressClass c =
     (is_digit c \<or> (65 \<le> byte c \<and> byte c \<le> 70) \<or> (97 \<le> byte c \<and> byte c \<le> 102) \<or> c = CHR '':'' \<or> c = CHR ''.'')"
| "in_class DomainClass c = (is_lower c \<or> is_upper c \<or> is_digit c \<or> c = CHR ''.'' \<or> c = CHR ''-'')"

primrec admits :: "schema \<Rightarrow> json \<Rightarrow> bool" where
  "admits (StringSchema low high cls description) =
     (\<lambda>v. case v of
        JString s \<Rightarrow> low \<le> length (runes s) \<and> length (runes s) \<le> high \<and> s \<noteq> [] \<and> list_all (in_class cls) s
      | _ \<Rightarrow> False)"
| "admits (ArraySchema item low high) =
     (\<lambda>v. case v of
        JArray items \<Rightarrow> low \<le> length items \<and> length items \<le> high \<and> list_all (admits item) items
      | _ \<Rightarrow> False)"
| "admits (ObjectSchema properties required) =
     (\<lambda>v. case v of
        JObject entries \<Rightarrow>
          list_all (\<lambda>k. map_of entries k \<noteq> None) required \<and>
          list_all (\<lambda>(k, _). k \<in> set (map fst properties)) entries \<and>
          list_all (\<lambda>(k, ok). case map_of entries k of None \<Rightarrow> True | Some x \<Rightarrow> ok x)
            (map (map_prod id admits) properties)
      | _ \<Rightarrow> False)"

lemma runes_ascii_length: "is_ascii s \<Longrightarrow> length (runes s) = length s"
  by (induction s) (auto simp: runes.simps(1) runes_Cons_ascii is_ascii_def)

lemma length_JoinByte: "ws \<noteq> [] \<Longrightarrow> Suc (length (JoinByte c ws)) = sum_list (map (\<lambda>w. Suc (length w)) ws)"
  by (induction c ws rule: JoinByte.induct) auto

lemma sum_list_bound: "\<forall>w\<in>set ws. f w \<le> k \<Longrightarrow> sum_list (map f ws) \<le> k * length (ws :: 'a list)" for f :: "'a \<Rightarrow> nat"
  by (induction ws) auto

lemma sum_list_least: "\<forall>w\<in>set ws. k \<le> f w \<Longrightarrow> k * length (ws :: 'a list) \<le> sum_list (map f ws)" for f :: "'a \<Rightarrow> nat"
  by (induction ws) auto

lemma string4_length: "7 \<le> length (string4 w) \<and> length (string4 w) \<le> 15"
proof -
  let ?ws = "map (digits 10) (to_base 256 4 (unat w))"
  have l: "length ?ws = 4" by (simp del: to_base.simps)
  have "Suc (length d) \<le> 4 \<and> 2 \<le> Suc (length d)" if "d \<in> set ?ws" for d
  proof -
    from that obtain v where v: "d = digits 10 v" "v \<in> set (to_base 256 4 (unat w))" by auto
    then have "v < 10 ^ 3" using to_base_less [of 256 v 4 "unat w"] by simp
    then have "length d \<le> 3" unfolding v(1) by (intro digits_length) simp_all
    moreover have "d \<noteq> []" using v(1) by simp
    ultimately show ?thesis by (simp add: Suc_le_eq)
  qed
  then have "sum_list (map (\<lambda>w. Suc (length w)) ?ws) \<le> 4 * 4" "2 * 4 \<le> sum_list (map (\<lambda>w. Suc (length w)) ?ws)"
    using sum_list_bound [of ?ws "\<lambda>w. Suc (length w)" 4] sum_list_least [of ?ws 2 "\<lambda>w. Suc (length w)"]
    by (simp_all only: l) blast+
  moreover have "?ws \<noteq> []" using l by force
  ultimately show ?thesis using length_JoinByte [of ?ws "CHR ''.''"] unfolding string4_def by linarith
qed

lemma hex_join_length:
  assumes "\<forall>g\<in>set gs. g < 65536" "gs \<noteq> []"
  shows "length (JoinByte CHR '':'' (map (digits 16) gs)) < 5 * length gs"
proof -
  have "Suc (length d) \<le> 5" if "d \<in> set (map (digits 16) gs)" for d
  proof -
    from that obtain g where g: "d = digits 16 g" "g \<in> set gs" by auto
    then have "g < 16 ^ 4" using assms(1) by simp
    then have "length d \<le> 4" unfolding g(1) by (intro digits_length) simp_all
    then show ?thesis by simp
  qed
  then have "sum_list (map (\<lambda>w. Suc (length w)) (map (digits 16) gs)) \<le> 5 * length (map (digits 16) gs)"
    by (intro sum_list_bound) blast
  then show ?thesis using length_JoinByte [of "map (digits 16) gs" "CHR '':''"] assms(2) by simp
qed

lemma string6_length: "2 \<le> length (string6 w) \<and> length (string6 w) \<le> 39"
proof (cases rule: string6_cases [of w])
  case all
  have "groups6 w \<noteq> []" using length_groups6 [of w] by force
  then have "length (string6 w) < 40"
    using hex_join_length [of "groups6 w"] groups6_less all by simp
  moreover have "2 \<le> length (string6 w)"
  proof -
    let ?ws = "map (digits 16) (groups6 w)"
    have "\<forall>d\<in>set ?ws. 2 \<le> Suc (length d)" by (auto simp: Suc_le_eq)
    then have "2 * length ?ws \<le> sum_list (map (\<lambda>w. Suc (length w)) ?ws)" by (intro sum_list_least)
    then show ?thesis using length_JoinByte [of ?ws "CHR '':''"] all \<open>groups6 w \<noteq> []\<close> by simp
  qed
  ultimately show ?thesis by simp
next
  case (run A n B)
  have small: "length (JoinByte CHR '':'' (map (digits 16) gs)) \<le> 5 * length gs" if "set gs \<subseteq> set (groups6 w)" for gs
    using that hex_join_length [of gs] groups6_less by (cases "gs = []") (auto intro: less_imp_le)
  have "length A + n + length B = 8" using run(1) length_groups6 [of w] by simp
  moreover have "set A \<subseteq> set (groups6 w)" "set B \<subseteq> set (groups6 w)" using run(1) by auto
  ultimately show ?thesis using small [of A] small [of B] run(2,3) by simp
qed

lemma normalize_each_size: "normalize_each i xs \<noteq> Inl BadIPCount"
proof -
  have "normalize_each i xs = Inl e \<Longrightarrow> \<exists>j d. e = AtIndex j d" for e
    by (induction i xs arbitrary: e rule: normalize_each.induct) (auto simp: attempt_Inl_iff split: sum.splits)
  then show ?thesis by blast
qed

lemma normalized_ip_length: "normalizeIP s = Inr ip \<Longrightarrow> 2 \<le> length ip \<and> length ip \<le> 45"
proof -
  assume "normalizeIP s = Inr ip"
  then obtain a where a: "Zone a = []" "ip = Addr_String (Unmap a)" unfolding normalizeIP_Inr by blast
  consider v where "Unmap a = Addr4 v" | v where "Unmap a = Addr6 v []" "\<not> is4in6 v"
  proof (cases a)
    case (Addr6 w z)
    then show ?thesis using that a(1) by (cases "is4in6 w") auto
  qed (use that in simp)
  then show ?thesis
  proof cases
    case (1 v)
    then show ?thesis using string4_length [of v] a(2) by simp
  next
    case (2 v)
    then show ?thesis using string6_length [of v] a(2) by simp
  qed
qed

lemma normalized_ip_admitted:
  assumes "normalizeIP s = Inr ip"
  shows "admits ipsInputSchema (JObject [(''ips'', JArray [JString ip])])"
proof -
  from assms obtain a where a: "Zone a = []" "ip = Addr_String (Unmap a)" unfolding normalizeIP_Inr by blast
  have chars: "list_all addr_char ip" "ip \<noteq> []" using Unmap_canonical [OF a(1)] a(2) by simp_all
  then have "is_ascii ip" using addr_chars_graph graph_ascii by blast
  moreover have "list_all (in_class AddressClass) ip" using chars(1) by (auto simp: list_all_iff addr_char_def)
  ultimately show ?thesis using chars(2) normalized_ip_length [OF assms]
    by (simp add: ipsInputSchema_def objectInputSchema_def ipStringSchema_def runes_ascii_length)
qed

lemma normalized_domain_admitted:
  assumes "normalizeDomain L domain = Inr name"
  shows "admits domainInputSchema (JObject [(''domain'', JString name)])"
proof -
  have "dns_name name" using assms normalize_domain_char by blast
  then have "list_all (in_class DomainClass) name" "is_ascii name" "1 \<le> length name" "length name \<le> 253" "name \<noteq> []"
    using dns_name_chars [of name] dns_name_ascii by (auto simp: list_all_iff dns_name_def)
  then show ?thesis by (simp add: domainInputSchema_def objectInputSchema_def runes_ascii_length Suc_le_eq)
qed



section \<open>gRPC summaries\<close>

text \<open>What \<open>sort.Slice\<close> promises for the less function on names: a permutation in order.\<close>

definition sorts :: "(GRPCService list \<Rightarrow> GRPCService list) \<Rightarrow> bool" where
  "sorts f \<longleftrightarrow> (\<forall>xs. mset (f xs) = mset xs \<and> sorted_wrt (\<lambda>a b. GServiceName a \<le> GServiceName b) (f xs))"

lemma sorts_sort_key: "sorts (sort_key GServiceName)"
proof -
  have "sorted_wrt (\<lambda>a b. GServiceName a \<le> GServiceName b) (sort_key GServiceName xs)" for xs
    using sorted_sort_key [of GServiceName xs] by (simp only: sorted_wrt_map)
  then show ?thesis by (auto simp only: sorts_def mset_sort)
qed

text \<open>The gRPC summary lists, in the order of their names, exactly the services of the descriptor
  set, each named with its package, with as many entries as services; a descriptor text is only
  included when asked for, and never longer than 1 MiB.\<close>

theorem grpc_summary:
  assumes "sorts (sort_slice K)" "grpcSchemaOutput K schema includeDescriptor = Inr summary"
  shows "\<exists>files. DescriptorSet schema = Some files \<and>
    mset (GServices summary) =
      mset (concat (map (\<lambda>file. map (summarize_service (FilePackage file)) (FileServices file)) files)) \<and>
    sorted_wrt (\<lambda>a b. GServiceName a \<le> GServiceName b) (GServices summary) \<and>
    length (GFiles summary) = length files \<and>
    length (GDescriptorJSON summary) \<le> maxDescriptorBytes \<and>
    (\<not> includeDescriptor \<longrightarrow> GDescriptorJSON summary = [])"
proof -
  obtain files where f: "DescriptorSet schema = Some files"
    using assms(2) by (cases "DescriptorSet schema") (auto simp: grpcSchemaOutput_def)
  have "GServices summary = summarizeServices K files \<and> length (GFiles summary) = length files \<and>
      length (GDescriptorJSON summary) \<le> maxDescriptorBytes \<and> (\<not> includeDescriptor \<longrightarrow> GDescriptorJSON summary = [])"
    using assms(2) f by (auto simp: grpcSchemaOutput_def Let_def split: if_splits option.splits)
  with f assms(1) show ?thesis by (simp add: summarizeServices_def sorts_def)
qed

definition example_toolkit :: toolkit where
  "example_toolkit =
     \<lparr>golib_of = example_golib, protojson = (\<lambda>_. Some ''{}''), sort_slice = sort_key GServiceName\<rparr>"

definition example_schema :: GRPCSchemaResult where
  "example_schema =
     \<lparr>SchemaEndpoint = ''grpc.synthient.com:443'', SchemaSymbols = [],
      DescriptorSet = Some [\<lparr>FileName = ''s.proto'', FilePackage = ''v1'',
        FileServices = [\<lparr>ServiceName = ''S'', ServiceMethods =
          [\<lparr>MethodName = ''M'', InputType = ''.v1.In'', OutputType = ''.v1.Out''\<rparr>]\<rparr>]\<rparr>]\<rparr>"

theorem grpc_summary_witness:
  "\<exists>summary. grpcSchemaOutput example_toolkit example_schema True = Inr summary \<and>
     map GServiceName (GServices summary) = [''v1.S'']"
proof -
  obtain summary where o: "grpcSchemaOutput example_toolkit example_schema True = Inr summary"
    by (simp add: grpcSchemaOutput_def example_toolkit_def example_schema_def maxDescriptorBytes_def)
  have "sorts (sort_slice example_toolkit)" by (simp add: example_toolkit_def sorts_sort_key)
  from grpc_summary [OF this o] have "mset (GServices summary) =
      mset [summarize_service ''v1'' \<lparr>ServiceName = ''S'', ServiceMethods =
        [\<lparr>MethodName = ''M'', InputType = ''.v1.In'', OutputType = ''.v1.Out''\<rparr>]\<rparr>]"
    by (auto simp: example_schema_def)
  then have "GServices summary = [summarize_service ''v1'' \<lparr>ServiceName = ''S'', ServiceMethods =
        [\<lparr>MethodName = ''M'', InputType = ''.v1.In'', OutputType = ''.v1.Out''\<rparr>]\<rparr>]"
    by simp
  with o show ?thesis by (simp add: summarize_service_def)
qed

end
