(* ===== verification/System.thy ===== *)
theory System
  imports Server Upstream Tool_Schemas
begin

text \<open>
  The composition in \<open>newHandler\<close> (\<open>httpserver/server.go\<close>): for each MCP request a client is made from
  the request's headers and the configuration, and the tool calls of the request run on it. The calls
  of concurrent requests share the network and the counters; a tool makes at most one exchange, so an
  interleaving is a list of calls, each with the request it belongs to.
\<close>

section \<open>The client of a request\<close>

definition apiClient :: "Config \<Rightarrow> doer" where
  "apiClient cfg = \<lparr>standard = True, followsRedirects = True, clientTimeout = requestTimeout cfg\<rparr>"

definition request_client :: "Config \<Rightarrow> Request \<Rightarrow> Client" where
  "request_client cfg request =
     WithGRPCEndpoint (SynthientGRPCEndpoint cfg)
       (NewClient (SynthientBaseURL cfg) (upstream_key cfg request) (upstream_forwarded_for request)
         (Some (apiClient cfg)) True)"

definition tool_options :: "Config \<Rightarrow> Options" where
  "tool_options cfg = \<lparr>LegacyToolNames = Config.LegacyToolNames cfg, SampleTimeout = StreamTimeout cfg\<rparr>"

section \<open>Running calls\<close>

text \<open>The SDK answers a call of an unknown tool itself.\<close>

datatype call_result = UnknownTool | Called "(tool_error, string \<times> tool_output) result"

definition call_tool :: "toolkit \<Rightarrow> 'w API \<Rightarrow> Options \<Rightarrow> tool_call \<Rightarrow> 'w \<Rightarrow> call_result \<times> 'w" where
  "call_tool K api options call w =
     (if registered options call then map_prod Called id (handler K api options call w) else (UnknownTool, w))"

definition run_call :: "toolkit \<Rightarrow> runtime \<Rightarrow> Config \<Rightarrow> Request \<Rightarrow> tool_call \<Rightarrow> world \<Rightarrow> call_result \<times> world" where
  "run_call K R cfg request = call_tool K (client_api R (request_client cfg request)) (tool_options cfg)"

fun run_calls ::
  "toolkit \<Rightarrow> runtime \<Rightarrow> Config \<Rightarrow> (Request \<times> tool_call) list \<Rightarrow> world \<Rightarrow> call_result list \<times> world" where
  "run_calls K R cfg [] w = ([], w)"
| "run_calls K R cfg ((request, call) # calls) w =
     (case run_call K R cfg request call w of
        (r, w) \<Rightarrow> (case run_calls K R cfg calls w of (rs, w) \<Rightarrow> (r # rs, w)))"

section \<open>What a call may do\<close>

text \<open>The operations keep their contract under the dispatch, so a call keeps it too.\<close>

context api_contract
begin

lemma call_tool_behaves: "behaves ok spent (call_tool K api options call)"
  using handler_behaves [of K options call] by (auto simp: behaves_def call_tool_def)

end

lemma run_call_behaves:
  "behaves (counted (request_client cfg request)) exchanges (run_call K R cfg request call)"
  unfolding run_call_def by (rule counting.call_tool_behaves)

lemma request_client_simps [simp]:
  "baseURL (request_client cfg request) = SynthientBaseURL cfg"
  "apiKey (request_client cfg request) = upstream_key cfg request"
  "forwardedFor (request_client cfg request) = upstream_forwarded_for request"
  "grpcEndpoint (request_client cfg request) = TrimSpace (SynthientGRPCEndpoint cfg)"
  "observed (request_client cfg request)"
  by (simp_all add: request_client_def WithGRPCEndpoint_def NewClient_def)

definition base_ok :: "Config \<Rightarrow> bool" where
  "base_ok cfg \<longleftrightarrow>
     (\<exists>api. SynthientBaseURL cfg = Some api \<and> Opaque api = [] \<and> User api = None \<and> secure_url api)"

lemma request_client_ok: "base_ok cfg \<Longrightarrow> client_ok (request_client cfg request)"
  by (auto simp: base_ok_def client_ok_def request_client_def WithGRPCEndpoint_def NewClient_def apiClient_def)

lemma LoadFrom_base: "LoadFrom L order lookup = Inr cfg \<Longrightarrow> base_ok cfg"
proof -
  assume "LoadFrom L order lookup = Inr cfg"
  then obtain parsed where base: "succeeds (validateBaseURL parsed)"
    and api: "SynthientBaseURL cfg = Some (if HasSuffix (Path parsed) ''/'' then parsed
                                           else parsed\<lparr>Path := Path parsed @ ''/''\<rparr>)"
    using LoadFrom_fields by blast
  from base have "Opaque parsed = [] \<and> User parsed = None"
    by (auto simp: validateBaseURL_def split: if_splits)
  with secure_urlI(1) [OF base] api show ?thesis by (simp add: base_ok_def)
qed

lemma call_exchange:
  assumes "client_ok c"
  shows "\<exists>new. Sent (snd (call_tool K (client_api R c) options call w)) = Sent w @ new \<and> length new \<le> 1 \<and>
    list_all (confined_exchange c) new"
proof -
  let ?w = "snd (call_tool K (client_api R c) options call w)"
  have "confined c (Sent w) w" by (simp add: confined_def)
  with confining.call_tool_behaves [of c "Sent w" K R options call]
  have "confined c (Sent w) ?w" and n: "exchanges ?w \<le> Suc (exchanges w)" by (simp_all add: behaves_def)
  then obtain new where "Sent ?w = Sent w @ new" "list_all (confined_exchange c) new"
    using assms by (auto simp: confined_def)
  with n show ?thesis by (simp add: exchanges_def)
qed

lemma run_call_exchange:
  "base_ok cfg \<Longrightarrow>
     \<exists>new. Sent (snd (run_call K R cfg request call w)) = Sent w @ new \<and> length new \<le> 1 \<and>
       list_all (confined_exchange (request_client cfg request)) new"
  unfolding run_call_def by (rule call_exchange [OF request_client_ok])

lemma run_calls_Cons [simp]:
  "snd (run_calls K R cfg ((request, call) # calls) w) =
     snd (run_calls K R cfg calls (snd (run_call K R cfg request call w)))"
  by (simp split: prod.split)

lemma run_calls_exchanges:
  assumes "base_ok cfg"
  shows "\<exists>parts. Sent (snd (run_calls K R cfg calls w)) = Sent w @ concat parts \<and>
    list_all2 (\<lambda>(request, call) part. length part \<le> 1 \<and>
      list_all (confined_exchange (request_client cfg request)) part) calls parts"
proof (induction calls arbitrary: w)
  case (Cons rc calls)
  obtain request call where rc: "rc = (request, call)" by (cases rc)
  obtain new where new: "Sent (snd (run_call K R cfg request call w)) = Sent w @ new" "length new \<le> 1"
    "list_all (confined_exchange (request_client cfg request)) new"
    using run_call_exchange [OF assms] by blast
  obtain parts where "Sent (snd (run_calls K R cfg calls (snd (run_call K R cfg request call w)))) =
      Sent (snd (run_call K R cfg request call w)) @ concat parts"
    "list_all2 (\<lambda>(request, call) part. length part \<le> 1 \<and>
      list_all (confined_exchange (request_client cfg request)) part) calls parts"
    using Cons.IH by blast
  with new show ?case unfolding rc run_calls_Cons by (intro exI [of _ "new # parts"]) simp
qed simp

section \<open>Calls that reach the API\<close>

definition accepted_call :: "toolkit \<Rightarrow> Config \<Rightarrow> tool_call \<Rightarrow> bool" where
  "accepted_call K cfg call \<longleftrightarrow>
     registered (tool_options cfg) call \<and> argument_check K (tool_options cfg) call = Inr ()"

lemma run_call_refused: "\<not> accepted_call K cfg call \<Longrightarrow> snd (run_call K R cfg request call w) = w"
  using handler_rejects [of K "tool_options cfg" call _ "client_api R (request_client cfg request)" w]
  by (cases "argument_check K (tool_options cfg) call") (auto simp: accepted_call_def run_call_def call_tool_def)

lemma run_calls_count:
  "exchanges (snd (run_calls K R cfg calls w)) \<le>
     exchanges w + length (filter (\<lambda>(request, call). accepted_call K cfg call) calls)"
proof (induction calls arbitrary: w)
  case (Cons rc calls)
  obtain request call where rc: "rc = (request, call)" by (cases rc)
  let ?w = "snd (run_call K R cfg request call w)"
  have "exchanges ?w \<le> exchanges w + (if accepted_call K cfg call then 1 else 0)"
    using run_call_behaves [of cfg request K R call] run_call_refused [of K cfg call R request w]
    by (auto simp: behaves_def)
  with Cons.IH [of ?w] show ?case unfolding rc run_calls_Cons by (auto intro: order_trans)
qed simp

lemma run_calls_counted:
  "counted (request_client cfg first) w \<Longrightarrow> counted (request_client cfg other) (snd (run_calls K R cfg calls w))"
proof (induction calls arbitrary: first w)
  case (Cons rc calls)
  obtain request call where rc: "rc = (request, call)" by (cases rc)
  have "counted (request_client cfg request) w" using Cons.prems by (simp add: counted_def)
  then have "counted (request_client cfg request) (snd (run_call K R cfg request call w))"
    using run_call_behaves [of cfg request K R call] by (simp add: behaves_def)
  from Cons.IH [OF this] show ?case unfolding rc run_calls_Cons .
qed (simp add: counted_def)

section \<open>The key of a running request\<close>

text \<open>The key a request spends, and the address it may pass on.\<close>

definition spends :: "Config \<Rightarrow> Request \<Rightarrow> string \<Rightarrow> bool" where
  "spends cfg request key \<longleftrightarrow>
     (if AuthMode cfg = ''oauth'' then key = SynthientAPIKey cfg
      else Values (ReqHeader request) ''X-API-Key'' = [key] \<and>
        requestPrincipal request = ''api-key:'' @ EncodeToString (Sum256 key) \<and>
        key \<noteq> [] \<and> TrimSpace key = key \<and> CHR '','' \<notin> set key \<and>
        int (length key) \<le> (if MaxAPIKeyLength cfg \<le> 0 then 1024 else MaxAPIKeyLength cfg))"

lemma running_key:
  assumes "phase_ok L cfg (Running who request response)"
  shows "spends cfg request (upstream_key cfg request) \<and> who = requestPrincipal request \<and>
    (upstream_forwarded_for request \<noteq> [] \<longrightarrow>
       ForwardClientIP cfg \<and> canonicalIP (upstream_forwarded_for request) = Inr (upstream_forwarded_for request))"
proof -
  from assms obtain request1 response1 token
    where who: "who = requestPrincipal request" and mode: "AuthMode cfg = ''oauth'' \<longleftrightarrow> token \<noteq> None"
      and fwd: "protectMCP L cfg (request1\<lparr>Token := token\<rparr>) response1 = Forward request response"
    by (auto simp: admitted_by_guards_def)
  note admits = protectMCP_admits [OF fwd]
  have address: "upstream_forwarded_for request \<noteq> [] \<longrightarrow>
      ForwardClientIP cfg \<and> canonicalIP (upstream_forwarded_for request) = Inr (upstream_forwarded_for request)"
    using admits by (auto simp: upstream_forwarded_for_def Get_def split: if_splits)
  show ?thesis
  proof (cases "AuthMode cfg = ''oauth''")
    case True
    with who address show ?thesis by (simp add: spends_def upstream_key_def)
  next
    case False
    with admits obtain k where k: "Values (ReqHeader request) ''X-API-Key'' = [k]" "k \<noteq> []" "TrimSpace k = k"
      "CHR '','' \<notin> set k" "int (length k) \<le> (if MaxAPIKeyLength cfg \<le> 0 then 1024 else MaxAPIKeyLength cfg)" by auto
    have "Request.Token request = None" using admits mode False by simp
    then have "who = ''api-key:'' @ EncodeToString (Sum256 k)" "upstream_key cfg request = k"
      using who k(1,2) False by (simp_all add: requestPrincipal_def upstream_key_def Get_def)
    with who address k False show ?thesis by (simp add: spends_def)
  qed
qed

section \<open>Properties\<close>

text \<open>C1: A caller's key never leaves for another place. Whatever tools are called, by whichever
  requests and in whichever order, under a configuration the loader accepts: each call makes at most one
  exchange; an HTTP one goes to a URL below the configured base URL (HTTPS, or HTTP to a loopback host),
  with redirects off, and carries as \<open>X-API-Key\<close> the key of the very request the call belongs to, and
  as \<open>X-Forwarded-For\<close> the address established for that request, or none; a gRPC one carries that key
  to the configured endpoint.\<close>

theorem key_stays_home:
  assumes "LoadFrom L order lookup = Inr cfg"
  shows "\<exists>parts. Sent (snd (run_calls K R cfg calls w)) = Sent w @ concat parts \<and>
    list_all2 (\<lambda>(request, call) part. length part \<le> 1 \<and>
      (\<forall>x\<in>set part. case x of
         Exchange d out \<Rightarrow>
           \<not> followsRedirects d \<and>
           (\<exists>api. SynthientBaseURL cfg = Some api \<and> secure_url api \<and> HasPrefix (Target out) (base_text api)) \<and>
           Values (OutHeader out) ''X-API-Key'' = [upstream_key cfg request] \<and>
           Values (OutHeader out) ''X-Forwarded-For'' =
             (if upstream_forwarded_for request = [] then [] else [upstream_forwarded_for request])
       | Reflection key endpoint symbols deadline \<Rightarrow>
           key = upstream_key cfg request \<and> endpoint = TrimSpace (SynthientGRPCEndpoint cfg))) calls parts"
proof -
  have base: "base_ok cfg" using assms by (rule LoadFrom_base)
  from run_calls_exchanges [OF this] obtain parts
    where p: "Sent (snd (run_calls K R cfg calls w)) = Sent w @ concat parts"
      "list_all2 (\<lambda>(request, call) part. length part \<le> 1 \<and>
        list_all (confined_exchange (request_client cfg request)) part) calls parts" by blast
  from base obtain api where api: "SynthientBaseURL cfg = Some api" "secure_url api" by (auto simp: base_ok_def)
  show ?thesis
    by (intro exI [of _ parts] conjI p(1) list_all2_mono [OF p(2)])
      (auto simp: list_all_iff confined_exchange_def api split: exchange.splits)
qed

theorem key_stays_home_witness:
  "\<exists>cfg parts. LoadFrom example_lib rev (stream_env 30000) = Inr cfg \<and>
     Sent (snd (run_calls example_toolkit example_runtime cfg
       [(example_request, GetAccount), (example_request, GRPCSchema [] False)] fresh_world)) =
       concat parts \<and> length parts = 2"
  using key_stays_home [OF LoadFrom_example, of "example_toolkit"
      example_runtime "[(example_request, GetAccount), (example_request, GRPCSchema [] False)]" fresh_world]
    LoadFrom_example
  by (fastforce simp: fresh_world_def dest: list_all2_lengthD)

text \<open>
  The key a running request spends: a call made by a request that has reached the MCP handler carries, in
  API-key mode, that request's own single key, which the limits were charged to; in OAuth mode the
  server's; and as client address only one in canonical form, and none when forwarding is off.
\<close>

theorem caller_key_upstream:
  assumes "LoadFrom L order lookup = Inr cfg" "reachable L cfg (s, ps)"
    and "ps i = Some (Running who request response)"
    and "Sent (snd (run_call K R cfg request call w)) = Sent w @ [Exchange d out]"
  shows "\<exists>key. Values (OutHeader out) ''X-API-Key'' = [key] \<and> spends cfg request key \<and>
    (\<forall>a\<in>set (Values (OutHeader out) ''X-Forwarded-For''). ForwardClientIP cfg \<and> canonicalIP a = Inr a)"
proof -
  from run_call_exchange [OF LoadFrom_base [OF assms(1)], of K R request call w] assms(4)
  have "Values (OutHeader out) ''X-API-Key'' = [upstream_key cfg request]"
    "Values (OutHeader out) ''X-Forwarded-For'' =
       (if upstream_forwarded_for request = [] then [] else [upstream_forwarded_for request])"
    by (auto simp: confined_exchange_def)
  with running_key [OF reachable_phase_ok [OF assms(2,3)]] show ?thesis by simp
qed

lemma example_base_url: "SynthientBaseURL default_config = Some example_base"
  by (simp add: default_config_def stream_config_def example_base_def api_url_def plain_url_def)

lemma example_exchange:
  "\<exists>d out. Sent (snd (run_call K example_runtime default_config request GetAccount w)) =
     Sent w @ [Exchange d out]"
proof -
  obtain u where u: "path_endpoint example_base [''account'', ''me''] = Inr u"
    using path_endpoint_rooted [OF example_api_base, of "[''account'', ''me'']"] by auto
  have "registered (tool_options default_config) GetAccount" unfolding registered_iff by (simp add: legacy_tools_def)
  then have "snd (run_call K example_runtime default_config request GetAccount w) =
      snd (requestQuery example_runtime (request_client default_config request) ''GET'' [''account'', ''me''] [] None w)"
    by (simp add: run_call_def call_tool_def get_account_def handle_world client_api_def Client_Account_def
        requestAs_def requestAsQuery_def attempt_in_finish)
  moreover have "httpClient (request_client default_config request) =
      Some \<lparr>standard = True, followsRedirects = False, clientTimeout = requestTimeout default_config\<rparr>"
    by (simp add: request_client_def WithGRPCEndpoint_def NewClient_def apiClient_def)
  ultimately show ?thesis
    using u by (simp add: requestQuery_def example_base_url example_runtime_def Do_def)
qed

text \<open>C14: What is sent is bounded by what was accepted, and metered exactly. From the start of the
  process, however the calls of the requests interleave: there are at most as many exchanges as calls of
  registered tools with good arguments; the counter of upstream requests is, as a 64-bit number, the
  number of HTTP exchanges; and each is in exactly one of the four outcomes.\<close>

theorem metering_exact:
  "let w = snd (run_calls K R cfg calls fresh_world)
   in length (Sent w) \<le> length (filter (\<lambda>(request, call). accepted_call K cfg call) calls) \<and>
      upstreamRequests (Stats w) = of_nat (length (filter is_http (Sent w))) \<and>
      outcomes (Stats w) = upstreamRequests (Stats w)"
proof -
  have "counted (request_client cfg request) fresh_world" for request
    by (simp add: counted_def fresh_world_def telemetry_zero_def outcomes_def)
  from run_calls_counted [OF this] have "counted (request_client cfg request) (snd (run_calls K R cfg calls fresh_world))"
    for request .
  with run_calls_count [of K R cfg calls fresh_world] show ?thesis
    by (simp add: counted_def Let_def exchanges_def fresh_world_def)
qed

end
