(* ===== verification/OAuth.thy ===== *)
theory OAuth
  imports Server Feed_Stream Go_Path
begin

text \<open>
  Component \<open>httpserver/oauth.go\<close>: what of a verified OpenID token becomes the identity and the scopes
  of a request, and the metadata URL a client is pointed to. The verification of a token
  (\<open>go-oidc\<close>) is the argument \<open>verify\<close>, from the issuer, the key set URL, the audience and the raw
  token; the check of the \<open>Authorization\<close> header (\<open>auth.RequireBearerToken\<close> of the MCP SDK) is the
  argument \<open>require\<close>, of which \<open>checks_bearer\<close> states what is relied on.
\<close>

section \<open>strings.Fields\<close>

text \<open>The words between white space; \<open>word\<close> is the word being read, reversed.\<close>

definition flush :: "string \<Rightarrow> string list" where
  "flush word = (if word = [] then [] else [rev word])"

function split_fields :: "string \<Rightarrow> string \<Rightarrow> string list" where
  "split_fields word [] = flush word"
| "split_fields word (c # cs) =
     (case find (HasPrefix (c # cs)) space_runes of
        None \<Rightarrow> split_fields (c # word) cs
      | Some e \<Rightarrow> flush word @ split_fields [] (drop (length e - 1) cs))"
  by pat_completeness auto
termination by (relation "measure (\<lambda>(word, s). length s)") auto

definition Fields :: "string \<Rightarrow> string list" where
  "Fields s = split_fields [] s"

section \<open>Claims\<close>

text \<open>
  A claim is the JSON value under a name, if there is one. Decoding into a string gives the text of a
  JSON string, leaves the empty string for \<open>null\<close>, and fails for the rest.
\<close>

fun unmarshal_string :: "json option \<Rightarrow> string option" where
  "unmarshal_string (Some (JString s)) = Some s"
| "unmarshal_string (Some JNull) = Some []"
| "unmarshal_string _ = None"

fun unmarshal_strings :: "json option \<Rightarrow> string list option" where
  "unmarshal_strings (Some (JArray items)) = those (map (\<lambda>v. unmarshal_string (Some v)) items)"
| "unmarshal_strings (Some JNull) = Some []"
| "unmarshal_strings _ = None"

definition stringClaim :: "json option \<Rightarrow> string" where
  "stringClaim raw = TrimSpace (case unmarshal_string raw of Some s \<Rightarrow> s | None \<Rightarrow> [])"

definition scopeClaim :: "json option \<Rightarrow> string list" where
  "scopeClaim raw =
     (case unmarshal_string raw of
        Some words \<Rightarrow> Fields words
      | None \<Rightarrow> (case unmarshal_strings raw of Some items \<Rightarrow> items | None \<Rightarrow> []))"

fun unique_items :: "string set \<Rightarrow> string list \<Rightarrow> string list" where
  "unique_items seen [] = []"
| "unique_items seen (item # items) =
     (let item = TrimSpace item
      in if item \<noteq> [] \<and> item \<notin> seen then item # unique_items (insert item seen) items
         else unique_items seen items)"

definition uniqueStrings :: "string list \<Rightarrow> string list" where
  "uniqueStrings items = unique_items {} items"

section \<open>The verifier\<close>

record id_token =
  TokenIssuer :: string
  TokenExpiry :: int
  TokenClaims :: "object option"

type_synonym oidc = "string \<Rightarrow> string \<Rightarrow> string \<Rightarrow> string \<Rightarrow> id_token option"

datatype verify_error = VerificationFailed | ClaimsInvalid | SubjectInvalid

type_synonym verifier = "string \<Rightarrow> (verify_error, token_info) result"

definition oidcTokenVerifier :: "oidc \<Rightarrow> Config \<Rightarrow> verifier" where
  "oidcTokenVerifier verify cfg rawToken =
     (case verify (OAuthIssuerURL cfg) (OAuthJWKSURL cfg) (OAuthAudience cfg) rawToken of
        None \<Rightarrow> Inl VerificationFailed
      | Some token \<Rightarrow>
          (case TokenClaims token of
             None \<Rightarrow> Inl ClaimsInvalid
           | Some claims \<Rightarrow>
               (let subject = stringClaim (map_of claims ''sub'')
                in if subject = [] \<or> 512 < length subject then Inl SubjectInvalid
                   else Inr \<lparr>Scopes = uniqueStrings (scopeClaim (map_of claims ''scope'') @ scopeClaim (map_of claims ''scp'')),
                             Expiration = TokenExpiry token, UserID = subject, issuer = TokenIssuer token\<rparr>)))"

section \<open>Resource metadata\<close>

definition well_known :: string where
  "well_known = ''/.well-known/oauth-protected-resource''"

definition resourceMetadataURL :: "golib \<Rightarrow> string \<Rightarrow> string" where
  "resourceMetadataURL L resource =
     (case urlParse L resource of
        None \<Rightarrow> []
      | Some parsed \<Rightarrow>
          URL_String \<lparr>Scheme = Scheme parsed, Opaque = [], User = None, HostPort = HostPort parsed,
            Path = (let resourcePath = TrimSuffix (Path parsed) ''/''
                    in if resourcePath \<noteq> [] then well_known @ resourcePath else well_known),
            RawPath = [], RawQuery = [], Fragment = []\<rparr>)"

definition resourceMetadataPath :: "golib \<Rightarrow> string \<Rightarrow> string" where
  "resourceMetadataPath L resource =
     (case urlParse L (resourceMetadataURL L resource) of
        None \<Rightarrow> well_known
      | Some parsed \<Rightarrow> if Path parsed = [] then well_known else Path parsed)"

record metadata =
  Resource :: string
  AuthorizationServers :: "string list"
  ScopesSupported :: "string list"
  BearerMethodsSupported :: "string list"
  ResourceName :: string

definition protectedResourceHandler :: "Config \<Rightarrow> metadata" where
  "protectedResourceHandler cfg =
     \<lparr>Resource = MCPResourceURL cfg, AuthorizationServers = [OAuthIssuerURL cfg],
      ScopesSupported = OAuthRequiredScopes cfg, BearerMethodsSupported = [''header''],
      ResourceName = ''Synthient Intelligence MCP''\<rparr>"

section \<open>The bearer check\<close>

type_synonym bearer_library = "verifier \<Rightarrow> string \<Rightarrow> string list \<Rightarrow> bearer_check"

definition oauth_bearer :: "bearer_library \<Rightarrow> oidc \<Rightarrow> golib \<Rightarrow> Config \<Rightarrow> bearer_check" where
  "oauth_bearer require verify L cfg =
     require (oidcTokenVerifier verify cfg) (resourceMetadataURL L (MCPResourceURL cfg)) (OAuthRequiredScopes cfg)"

text \<open>What \<open>RequireBearerToken\<close> documents: a request passes only with a token from its
  \<open>Authorization\<close> header that the verifier accepts and that has every required scope.\<close>

definition checks_bearer :: "bearer_library \<Rightarrow> bool" where
  "checks_bearer require \<longleftrightarrow>
     (\<forall>verifier url scopes request token. require verifier url scopes request = Inr token \<longrightarrow>
        set scopes \<subseteq> set (Scopes token) \<and>
        (\<exists>rawToken\<in>set (Fields (Get (ReqHeader request) ''Authorization'')). verifier rawToken = Inr token))"

section \<open>Words\<close>

lemma graph_not_space: "is_graph c \<Longrightarrow> find (HasPrefix (c # cs)) space_runes = None"
  using space_runes_not_graph by (fastforce simp: find_None_iff HasPrefix_iff Cons_eq_append_conv)

lemma split_fields_word:
  "list_all is_graph w \<Longrightarrow> split_fields word (w @ s) = split_fields (rev w @ word) s"
  by (induction w arbitrary: word) (simp_all add: graph_not_space)

lemma find_space: "find (HasPrefix (CHR '' '' # cs)) space_runes = Some '' ''"
proof -
  have only: "list_all (\<lambda>e. e \<noteq> [] \<and> (hd e = CHR '' '' \<longrightarrow> e = '' '')) space_runes" by code_simp
  have "'' '' \<in> set space_runes" by code_simp
  then obtain e where e: "find (HasPrefix (CHR '' '' # cs)) space_runes = Some e"
    using HasPrefix_append [of "'' ''" cs] by (cases "find (HasPrefix (CHR '' '' # cs)) space_runes") (auto simp: find_None_iff)
  then have "e \<in> set space_runes" "HasPrefix (CHR '' '' # cs) e" by (auto simp: find_Some_iff)
  moreover have "e \<noteq> []" "hd e = CHR '' '' \<longrightarrow> e = '' ''" using calculation(1) only unfolding list_all_iff by blast+
  moreover have "hd e = CHR '' ''" using calculation(2,3) by (auto simp: HasPrefix_iff Cons_eq_append_conv)
  ultimately have "e = '' ''" by blast
  with e show ?thesis by simp
qed

lemma split_fields_space: "split_fields word (CHR '' '' # s) = flush word @ split_fields [] s"
  by (simp add: find_space)

lemma Fields_unwords:
  "\<forall>w\<in>set ws. w \<noteq> [] \<and> list_all is_graph w \<Longrightarrow> Fields (unwords ws) = ws"
proof (induction ws rule: unwords.induct)
  case (2 w)
  then show ?case using split_fields_word [of w "[]" "[]"] by (simp add: Fields_def flush_def)
next
  case (3 w w' ws)
  then have "split_fields [] (w @ CHR '' '' # unwords (w' # ws)) = w # Fields (unwords (w' # ws))"
    using split_fields_word [of w "[]" "CHR '' '' # unwords (w' # ws)"]
    by (simp add: split_fields_space flush_def Fields_def del: split_fields.simps)
  with 3 show ?case by (simp add: Fields_def)
qed (simp add: Fields_def flush_def)

section \<open>Properties\<close>

lemma unmarshal_words: "those (map (\<lambda>v. unmarshal_string (Some v)) (map JString ws)) = Some ws"
  by (induction ws) auto

text \<open>The two forms a provider may give scopes in are the same to the server: a string of words
  separated by spaces and an array of those words give exactly those words, in their order.\<close>

theorem scope_forms:
  assumes "\<forall>w\<in>set ws. w \<noteq> [] \<and> list_all is_graph w"
  shows "scopeClaim (Some (JString (unwords ws))) = ws \<and> scopeClaim (Some (JArray (map JString ws))) = ws"
  using Fields_unwords [OF assms] unmarshal_words [of ws] by (simp add: scopeClaim_def)

theorem scope_forms_witness:
  "scopeClaim (Some (JString (unwords [''mcp:tools'', ''mcp:admin'']))) = [''mcp:tools'', ''mcp:admin'']"
proof -
  have "list_all (\<lambda>w. w \<noteq> [] \<and> list_all is_graph w) [''mcp:tools'', ''mcp:admin'']" by code_simp
  then show ?thesis using scope_forms [of "[''mcp:tools'', ''mcp:admin'']"] unfolding list_all_iff by blast
qed

lemma remdups_snoc: "remdups (xs @ [x]) = filter (\<lambda>y. y \<noteq> x) (remdups xs) @ [x]"
  by (induction xs) auto

lemma unique_items_filter:
  "unique_items seen items =
     filter (\<lambda>w. w \<notin> seen) (rev (remdups (rev (filter (\<lambda>w. w \<noteq> []) (map TrimSpace items)))))"
proof (induction items arbitrary: seen)
  case (Cons item items)
  have "filter (\<lambda>w. w \<notin> seen) (filter (\<lambda>w. w \<noteq> v) xs) = filter (\<lambda>w. w \<notin> insert v seen) xs" for v xs
    by (simp add: conj_commute)
  with Cons show ?case by (auto simp: Let_def remdups_snoc rev_filter [symmetric] intro!: filter_cong)
qed simp

text \<open>\<open>uniqueStrings\<close> keeps, of the trimmed entries that are not blank, the first occurrence of each,
  in their order.\<close>

theorem unique_strings_first:
  "uniqueStrings items = rev (remdups (rev (filter (\<lambda>w. w \<noteq> []) (map TrimSpace items)))) \<and>
   distinct (uniqueStrings items) \<and> set (uniqueStrings items) = TrimSpace ` set items - {[]}"
  unfolding uniqueStrings_def unique_items_filter by auto

text \<open>C10: Who an OAuth request is. If the checks of the route let a request through in OAuth mode, its
  principal is the subject of a token from its \<open>Authorization\<close> header that the provider's keys verified
  for the configured issuer and audience, trimmed, between 1 and 512 bytes; that token grants every
  required scope; and the key spent upstream is the server's.\<close>

theorem oauth_principal:
  assumes "checks_bearer require" "AuthMode cfg = ''oauth''"
    and "inner_guards L cfg (oauth_bearer require verify L cfg) request response = Forward request' response'"
  shows "\<exists>rawToken token claims sub.
    rawToken \<in> set (Fields (Get (ReqHeader request) ''Authorization'')) \<and>
    verify (OAuthIssuerURL cfg) (OAuthJWKSURL cfg) (OAuthAudience cfg) rawToken = Some token \<and>
    TokenClaims token = Some claims \<and> map_of claims ''sub'' = Some (JString sub) \<and>
    requestPrincipal request' = ''oauth:'' @ TrimSpace sub \<and>
    1 \<le> length (TrimSpace sub) \<and> length (TrimSpace sub) \<le> 512 \<and>
    set (OAuthRequiredScopes cfg) \<subseteq>
      TrimSpace ` (set (scopeClaim (map_of claims ''scope'')) \<union> set (scopeClaim (map_of claims ''scp''))) \<and>
    upstream_key cfg request' = SynthientAPIKey cfg"
proof -
  obtain info where info: "oauth_bearer require verify L cfg request = Inr info"
    and fwd: "protectMCP L cfg (request\<lparr>Request.Token := Some info\<rparr>) response = Forward request' response'"
    using assms(2,3) by (cases "oauth_bearer require verify L cfg request")
      (auto simp: inner_guards_def oauthProtection_def)
  from assms(1) info obtain rawToken
    where scopes: "set (OAuthRequiredScopes cfg) \<subseteq> set (Scopes info)"
      and raw: "rawToken \<in> set (Fields (Get (ReqHeader request) ''Authorization''))"
      and ok: "oidcTokenVerifier verify cfg rawToken = Inr info"
    unfolding checks_bearer_def oauth_bearer_def by blast
  from ok obtain token claims where t: "verify (OAuthIssuerURL cfg) (OAuthJWKSURL cfg) (OAuthAudience cfg) rawToken = Some token"
    "TokenClaims token = Some claims"
    and subject: "UserID info = stringClaim (map_of claims ''sub'')" "UserID info \<noteq> []" "length (UserID info) \<le> 512"
    and granted: "Scopes info = uniqueStrings (scopeClaim (map_of claims ''scope'') @ scopeClaim (map_of claims ''scp''))"
    by (auto simp: oidcTokenVerifier_def Let_def split: option.splits if_splits)
  from subject(1,2) obtain sub where sub: "map_of claims ''sub'' = Some (JString sub)" "UserID info = TrimSpace sub"
    by (cases "map_of claims ''sub''" rule: unmarshal_string.cases) (auto simp: stringClaim_def)
  have "Request.Token request' = Some info" using protectMCP_admits [OF fwd] by simp
  then have "requestPrincipal request' = ''oauth:'' @ TrimSpace sub"
    using subject(2) sub(2) by (simp add: requestPrincipal_def)
  moreover have "set (Scopes info) \<subseteq>
      TrimSpace ` (set (scopeClaim (map_of claims ''scope'')) \<union> set (scopeClaim (map_of claims ''scp'')))"
    unfolding granted uniqueStrings_def unique_items_filter by auto
  ultimately show ?thesis
    using raw t sub subject(2,3) scopes assms(2) by (auto simp: upstream_key_def Suc_le_eq)
qed

definition example_bearer :: bearer_library where
  "example_bearer verifier url scopes request =
     (case Fields (Get (ReqHeader request) ''Authorization'') of
        [scheme, rawToken] \<Rightarrow>
          (case verifier rawToken of
             Inr token \<Rightarrow> if set scopes \<subseteq> set (Scopes token) then Inr token else Inl empty_response
           | Inl _ \<Rightarrow> Inl empty_response)
      | _ \<Rightarrow> Inl empty_response)"

lemma example_bearer_checks: "checks_bearer example_bearer"
  by (auto simp: checks_bearer_def example_bearer_def split: list.splits sum.splits if_splits)

definition example_oidc :: oidc where
  "example_oidc iss jwks aud rawToken =
     Some \<lparr>TokenIssuer = iss, TokenExpiry = 0,
           TokenClaims = Some [(''sub'', JString ''alice''), (''scope'', JString ''mcp:tools'')]\<rparr>"

definition oauth_config :: Config where
  "oauth_config =
     default_config\<lparr>AuthMode := ''oauth'', SynthientAPIKey := ''server-key'', OAuthRequiredScopes := [''mcp:tools'']\<rparr>"

definition bearer_request :: Request where
  "bearer_request = (key_request [])\<lparr>ReqHeader := no_header(''Authorization'' := [''Bearer t''])\<rparr>"

lemma example_identity:
  "oauth_bearer example_bearer example_oidc L oauth_config bearer_request =
     Inr \<lparr>Scopes = [''mcp:tools''], Expiration = 0, UserID = ''alice'', issuer = OAuthIssuerURL oauth_config\<rparr>"
proof -
  have graph: "list_all is_graph ''alice''" "list_all is_graph ''mcp:tools''"
    "list_all (\<lambda>w. w \<noteq> [] \<and> list_all is_graph w) [''Bearer'', ''t'']" by code_simp+
  have "Fields (unwords [''Bearer'', ''t'']) = [''Bearer'', ''t'']"
    using graph(3) by (intro Fields_unwords) (simp only: list_all_iff)
  moreover have "Get (ReqHeader bearer_request) ''Authorization'' = unwords [''Bearer'', ''t'']"
    by (simp add: bearer_request_def Get_def Values_def CanonicalHeaderKey_def is_token_char_def)
      code_simp
  moreover have "Fields (unwords [''mcp:tools'']) = [''mcp:tools'']"
    using graph(2) by (intro Fields_unwords) simp
  ultimately show ?thesis
    using graph(1,2)[THEN TrimSpace_graph]
    by (simp add: oauth_bearer_def example_bearer_def oidcTokenVerifier_def example_oidc_def stringClaim_def
        scopeClaim_def uniqueStrings_def oauth_config_def)
qed

theorem oauth_principal_witness:
  "\<exists>request' response'.
     inner_guards example_lib oauth_config (oauth_bearer example_bearer example_oidc example_lib oauth_config)
       bearer_request empty_response = Forward request' response' \<and>
     upstream_key oauth_config request' = ''server-key'' \<and>
     (\<exists>sub. requestPrincipal request' = ''oauth:'' @ TrimSpace sub)"
proof -
  have host: "Request.Host bearer_request = Request.Host (key_request [])"
    "AllowedHosts oauth_config = AllowedHosts default_config" "AuthMode oauth_config = ''oauth''"
    "ForwardClientIP oauth_config = False"
    by (simp_all add: bearer_request_def oauth_config_def default_config_def stream_config_def)
  then obtain request' response' where fwd:
    "inner_guards example_lib oauth_config (oauth_bearer example_bearer example_oidc example_lib oauth_config)
       bearer_request empty_response = Forward request' response'"
    using key_request_host [of example_lib "[]"]
    by (simp add: inner_guards_def oauthProtection_def example_identity protectMCP_def forward_client_ip_def Let_def)
  from oauth_principal [OF example_bearer_checks host(3) this]
  have "upstream_key oauth_config request' = SynthientAPIKey oauth_config \<and>
      (\<exists>sub. requestPrincipal request' = ''oauth:'' @ TrimSpace sub)" by blast
  with fwd show ?thesis by (auto simp: oauth_config_def)
qed

end
