(* ===== verification/Routes.thy ===== *)
theory Routes
  imports OAuth
begin

text \<open>
  The rest of \<open>httpserver/server.go\<close>: the routes of \<open>newHandler\<close>'s mux, the health and metrics
  endpoints, and what \<open>observeRequests\<close> records about a request. A path here has no percent escapes.
  The printing of a number of nanoseconds as seconds (\<open>%.6f\<close> of a \<open>float64\<close>) is the argument \<open>seconds\<close>.
\<close>

section \<open>The mux\<close>

datatype route = Healthz | Metrics | Metadata | Mcp

datatype dispatch = Serve route | Redirect string | MethodNotAllowed | NotFound

text \<open>Patterns with an optional method; one that ends in a slash stands for every path below it.\<close>

type_synonym pattern = "string option \<times> string \<times> route"

definition routes :: "golib \<Rightarrow> Config \<Rightarrow> pattern list" where
  "routes L cfg =
     (Some ''GET'', ''/healthz'', Healthz) #
     (if MetricsEnabled cfg then [(Some ''GET'', ''/metrics'', Metrics)] else []) @
     (if AuthMode cfg = ''oauth''
      then (let metadataPath = resourceMetadataPath L (MCPResourceURL cfg)
            in (None, metadataPath, Metadata) #
               (if metadataPath \<noteq> well_known then [(None, well_known, Metadata)] else []))
      else []) @
     [(None, ''/mcp'', Mcp)]"

definition path_matches :: "string \<Rightarrow> string \<Rightarrow> bool" where
  "path_matches pattern path = (if HasSuffix pattern ''/'' then HasPrefix path pattern else path = pattern)"

definition method_matches :: "string option \<Rightarrow> string \<Rightarrow> bool" where
  "method_matches m requested =
     (case m of None \<Rightarrow> True
      | Some m \<Rightarrow> requested = m \<or> (m = ''GET'' \<and> requested = ''HEAD''))"

definition cleanPath :: "string \<Rightarrow> string" where
  "cleanPath p =
     (let p = (if HasPrefix p ''/'' then p else CHR ''/'' # p); c = Clean p
      in if HasSuffix p ''/'' \<and> c \<noteq> ''/'' then c @ ''/'' else c)"

definition mux :: "pattern list \<Rightarrow> string \<Rightarrow> string \<Rightarrow> dispatch" where
  "mux patterns requested path =
     (if cleanPath path \<noteq> path then Redirect (cleanPath path)
      else (case find (\<lambda>(m, p, r). path_matches p path \<and> method_matches m requested) patterns of
              Some (m, p, r) \<Rightarrow> Serve r
            | None \<Rightarrow> if list_ex (\<lambda>(m, p, r). path_matches p path) patterns then MethodNotAllowed else NotFound))"

section \<open>Health\<close>

record build =
  Version :: string
  Commit :: string
  Date :: string

text \<open>\<open>json.NewEncoder(response).Encode\<close> of a map: the keys in order, and a newline.\<close>

definition health_body :: "build \<Rightarrow> string" where
  "health_body b =
     ''{'' @ encode_string ''commit'' @ '':'' @ encode_string (Commit b) @ '','' @
     encode_string ''status'' @ '':'' @ encode_string ''ok'' @ '','' @
     encode_string ''version'' @ '':'' @ encode_string (Version b) @ ''}'' @ [CHR 0x0A]"

definition healthz :: "build \<Rightarrow> Response \<Rightarrow> Response" where
  "healthz b response =
     (let r = set_header ''Content-Type'' ''application/json'' response;
          r = set_header ''Cache-Control'' ''no-store'' r
      in (write_header 200 r)\<lparr>Body := Other (health_body b)\<rparr>)"

section \<open>Metrics\<close>

definition counter_line :: "string \<Rightarrow> 64 word \<Rightarrow> string" where
  "counter_line name v = name @ '' '' @ Itoa (sint v)"

definition outcome_name :: "string \<Rightarrow> string" where
  "outcome_name outcome =
     ''synthient_mcp_upstream_requests_by_outcome{outcome='' @ [CHR 0x22] @ outcome @ [CHR 0x22] @ ''}''"

definition metric_lines :: "(64 word \<Rightarrow> string) \<Rightarrow> telemetry \<Rightarrow> string list" where
  "metric_lines seconds t =
     [''# TYPE synthient_mcp_http_requests_total counter'',
      counter_line ''synthient_mcp_http_requests_total'' (httpRequests t),
      ''# TYPE synthient_mcp_http_inflight gauge'',
      counter_line ''synthient_mcp_http_inflight'' (httpInflight t),
      ''# TYPE synthient_mcp_http_rejected_total counter'',
      counter_line ''synthient_mcp_http_rejected_total'' (httpRejected t),
      ''# TYPE synthient_mcp_http_principal_rejected_total counter'',
      counter_line ''synthient_mcp_http_principal_rejected_total'' (httpPrincipalRejected t),
      ''# TYPE synthient_mcp_http_rate_rejected_total counter'',
      counter_line ''synthient_mcp_http_rate_rejected_total'' (httpRateRejected t),
      ''# TYPE synthient_mcp_upstream_requests_total counter'',
      counter_line ''synthient_mcp_upstream_requests_total'' (upstreamRequests t),
      ''# TYPE synthient_mcp_upstream_requests_by_outcome counter'',
      counter_line (outcome_name ''success'') (upstreamSuccess t),
      counter_line (outcome_name ''client_error'') (upstreamClientErrors t),
      counter_line (outcome_name ''server_error'') (upstreamServerErrors t),
      counter_line (outcome_name ''transport_error'') (upstreamTransport t),
      ''# TYPE synthient_mcp_upstream_duration_seconds_total counter'',
      ''synthient_mcp_upstream_duration_seconds_total '' @ seconds (upstreamDurationNanos t)]"

definition metrics_text :: "(64 word \<Rightarrow> string) \<Rightarrow> telemetry \<Rightarrow> string" where
  "metrics_text seconds t = concat (map (\<lambda>line. line @ [CHR 0x0A]) (metric_lines seconds t))"

definition metrics :: "(64 word \<Rightarrow> string) \<Rightarrow> telemetry \<Rightarrow> Response \<Rightarrow> Response" where
  "metrics seconds t response =
     (let r = set_header ''Content-Type'' ''text/plain; version=0.0.4'' response;
          r = set_header ''Cache-Control'' ''no-store'' r
      in (write_header 200 r)\<lparr>Body := Other (metrics_text seconds t)\<rparr>)"

section \<open>What is recorded about a request\<close>

text \<open>The connection under a handler: informational headers, then one final status, then the body.\<close>

record wire =
  informational :: "int list"
  finalStatus :: "int option"
  content :: string

definition informative :: "int \<Rightarrow> bool" where
  "informative code \<longleftrightarrow> 100 \<le> code \<and> code \<le> 199 \<and> code \<noteq> 101"

definition wire_header :: "int \<Rightarrow> wire \<Rightarrow> wire" where
  "wire_header code w =
     (if finalStatus w \<noteq> None then w
      else if informative code then w\<lparr>informational := informational w @ [code]\<rparr>
      else w\<lparr>finalStatus := Some code\<rparr>)"

definition wire_write :: "string \<Rightarrow> wire \<Rightarrow> wire" where
  "wire_write bytes w = (let w = wire_header 200 w in w\<lparr>content := content w @ bytes\<rparr>)"

record statusRecorder =
  ResponseWriter :: wire
  recorded :: int
  wroteHeader :: bool

definition WriteHeader :: "int \<Rightarrow> statusRecorder \<Rightarrow> statusRecorder" where
  "WriteHeader code r =
     (if wroteHeader r then r
      else r\<lparr>wroteHeader := True, recorded := code, ResponseWriter := wire_header code (ResponseWriter r)\<rparr>)"

definition Write :: "string \<Rightarrow> statusRecorder \<Rightarrow> statusRecorder" where
  "Write bytes r =
     (let r = (if wroteHeader r then r else r\<lparr>wroteHeader := True, recorded := 200\<rparr>)
      in r\<lparr>ResponseWriter := wire_write bytes (ResponseWriter r)\<rparr>)"

definition Unwrap :: "statusRecorder \<Rightarrow> wire" where
  "Unwrap r = ResponseWriter r"

text \<open>What a handler may do with the recorder; a flush goes to the writer that \<open>Unwrap\<close> returns.\<close>

datatype writer_op = Header int | Bytes string | Flush

fun perform :: "statusRecorder \<Rightarrow> writer_op \<Rightarrow> statusRecorder" where
  "perform r (Header code) = WriteHeader code r"
| "perform r (Bytes bytes) = Write bytes r"
| "perform r Flush = r\<lparr>ResponseWriter := wire_header 200 (Unwrap r)\<rparr>"

definition new_recorder :: statusRecorder where
  "new_recorder =
     \<lparr>ResponseWriter = \<lparr>informational = [], finalStatus = None, content = []\<rparr>, recorded = 200, wroteHeader = False\<rparr>"

text \<open>The status a client sees once the handler has returned.\<close>

definition seen_status :: "wire \<Rightarrow> int" where
  "seen_status w = (case finalStatus w of Some code \<Rightarrow> code | None \<Rightarrow> 200)"

text \<open>12 random bytes, or the time when there are none.\<close>

definition newRequestID :: "nat list option \<Rightarrow> int \<Rightarrow> string" where
  "newRequestID random nanos =
     (case random of
        None \<Rightarrow> ''fallback-'' @ Itoa nanos
      | Some bytes \<Rightarrow> EncodeToString bytes)"

record log_line =
  LineLevel :: LogLevel
  LineRequestID :: string
  LineMethod :: string
  LinePath :: string
  LineStatus :: int

definition request_line :: "string \<Rightarrow> Request \<Rightarrow> statusRecorder \<Rightarrow> log_line" where
  "request_line requestID request recorder =
     \<lparr>LineLevel = (if URLPath request = ''/healthz'' \<or> URLPath request = ''/metrics'' then LevelDebug else LevelInfo),
      LineRequestID = requestID, LineMethod = Method request, LinePath = URLPath request,
      LineStatus = recorded recorder\<rparr>"

text \<open>A logger writes a line whose level is at least the configured one.\<close>

definition logged :: "Config \<Rightarrow> string \<Rightarrow> Request \<Rightarrow> statusRecorder \<Rightarrow> log_line list" where
  "logged cfg requestID request recorder =
     (let line = request_line requestID request recorder
      in if Config.LogLevel cfg \<le> LineLevel line then [line] else [])"

definition ListenAddress :: "Config \<Rightarrow> string" where
  "ListenAddress cfg = ''http://'' @ Address cfg @ ''/mcp''"

section \<open>Properties\<close>

lemma perform_kept:
  "wroteHeader r \<Longrightarrow> finalStatus (ResponseWriter r) = Some (recorded r) \<Longrightarrow>
     wroteHeader (perform r op) \<and> recorded (perform r op) = recorded r \<and>
     finalStatus (ResponseWriter (perform r op)) = Some (recorded r)"
  by (cases op) (simp_all add: WriteHeader_def Write_def wire_write_def wire_header_def Let_def Unwrap_def)

lemma performs_kept:
  "wroteHeader r \<Longrightarrow> finalStatus (ResponseWriter r) = Some (recorded r) \<Longrightarrow>
     recorded (foldl perform r ops) = recorded r \<and> finalStatus (ResponseWriter (foldl perform r ops)) = Some (recorded r)"
  using perform_kept by (induction ops arbitrary: r) auto

text \<open>Probes of health and metrics are logged only at the debug level, other requests also at the info
  level, and none at the others.\<close>

lemma logged_levels:
  "logged cfg requestID request recorder =
     (if Config.LogLevel cfg = LevelDebug \<or>
         Config.LogLevel cfg = LevelInfo \<and> URLPath request \<notin> {''/healthz'', ''/metrics''}
      then [request_line requestID request recorder] else [])"
  by (cases "Config.LogLevel cfg") (simp_all add: logged_def request_line_def less_eq_LogLevel_def)

text \<open>The status in the log is the status the client saw. For a handler that sends no informational
  headers and does not flush before anything else, whatever it writes in whatever order: the recorded
  status is the one on the wire, and it is the first one the handler asked for, or 200 if it wrote a
  body or nothing.\<close>

theorem recorder_agrees:
  assumes "\<forall>code. Header code \<in> set ops \<longrightarrow> \<not> informative code" "ops = [] \<or> hd ops \<noteq> Flush"
  shows "recorded (foldl perform new_recorder ops) = seen_status (ResponseWriter (foldl perform new_recorder ops)) \<and>
    recorded (foldl perform new_recorder ops) = (case ops of Header code # _ \<Rightarrow> code | _ \<Rightarrow> 200)"
proof (cases ops)
  case (Cons op ops')
  let ?r = "perform new_recorder op" and ?code = "case op of Header code \<Rightarrow> code | _ \<Rightarrow> 200"
  from Cons assms have op: "op \<noteq> Flush" "\<forall>code. op = Header code \<longrightarrow> \<not> informative code" by auto
  have "\<not> informative 200" by (simp add: informative_def)
  with op have "wroteHeader ?r" "recorded ?r = ?code" "finalStatus (ResponseWriter ?r) = Some (recorded ?r)"
    by (cases op; simp add: new_recorder_def WriteHeader_def Write_def wire_write_def wire_header_def Let_def)+
  with performs_kept [of ?r ops'] Cons show ?thesis
    by (simp add: seen_status_def split: writer_op.splits)
qed (simp add: new_recorder_def seen_status_def)

theorem recorder_agrees_witness:
  "seen_status (ResponseWriter (foldl perform new_recorder [Header 503, Bytes ''busy'', Header 200, Flush])) = 503"
proof -
  have "(\<forall>code. Header code \<in> set [Header 503, Bytes ''busy'', Header 200, Flush] \<longrightarrow> \<not> informative code) \<and>
      ([Header 503, Bytes ''busy'', Header 200, Flush] = [] \<or> hd [Header 503, Bytes ''busy'', Header 200, Flush] \<noteq> Flush)"
    by (auto simp: informative_def)
  from recorder_agrees [OF conjunct1 [OF this] conjunct2 [OF this]] show ?thesis by simp
qed

text \<open>The health endpoint answers with one JSON object that says \<open>ok\<close> and names the version and
  the commit of the build, whatever ASCII text these are.\<close>

theorem health_body_decodes:
  assumes "is_ascii (Version b)" "is_ascii (Commit b)"
  shows "Decode (health_body b) =
    Decoded (JObject [(''commit'', JString (Commit b)), (''status'', JString ''ok''), (''version'', JString (Version b))])
      [CHR 0x0A]"
proof -
  have names: "is_ascii ''commit''" "is_ascii ''status''" "is_ascii ''ok''" "is_ascii ''version''" by code_simp+
  have "\<not> list_all is_json_space (health_body b)" by (simp add: health_body_def is_json_space_def byte_def)
  then have "Decode (health_body b) = parse [] WantValue (health_body b)" by (simp add: Decode_def)
  also have "\<dots> = parse [] (Have (JObject [(''commit'', JString (Commit b)), (''status'', JString ''ok''),
      (''version'', JString (Version b))])) [CHR 0x0A]"
    using assms names
    by (simp add: health_body_def parse_token [OF next_token_quote] parse_token [OF next_token_punctuation]
        punctuation_def push_def maxNestingDepth_def)
  finally show ?thesis by (simp add: parse.simps)
qed

theorem health_body_decodes_witness:
  "\<exists>b. Version b = ''dev'' \<and> Decode (health_body b) =
     Decoded (JObject [(''commit'', JString ''unknown''), (''status'', JString ''ok''), (''version'', JString ''dev'')])
       [CHR 0x0A]"
proof -
  let ?b = "\<lparr>Version = ''dev'', Commit = ''unknown'', Date = ''unknown''\<rparr>"
  have "is_ascii (Version ?b)" "is_ascii (Commit ?b)" by (simp_all add: is_ascii_def byte_def)
  from health_body_decodes [OF this] show ?thesis by (intro exI [of _ ?b]) simp
qed

lemma mux_patterns:
  assumes "cleanPath path = path" "distinct [h, e, c, w]"
    and "\<And>q. q \<in> {h, e, c, w} \<Longrightarrow> path_matches q path \<longleftrightarrow> path = q"
    and "oauth \<Longrightarrow> \<not> path_matches p h \<and> \<not> path_matches p e \<and> \<not> path_matches p c"
    and "patterns = (g, h, Healthz) # (if b then [(g, e, Metrics)] else []) @
      (if oauth then (None, p, Metadata) # (if p \<noteq> w then [(None, w, Metadata)] else []) else []) @ [(None, c, Mcp)]"
  shows "(mux patterns m path = Serve Mcp \<longleftrightarrow> path = c) \<and>
    (mux patterns m path = Serve Healthz \<longleftrightarrow> path = h \<and> method_matches g m) \<and>
    (mux patterns m path = Serve Metrics \<longleftrightarrow> b \<and> path = e \<and> method_matches g m) \<and>
    (mux patterns m path = Serve Metadata \<longleftrightarrow> oauth \<and> (path = w \<or> path_matches p path))"
proof -
  have any: "method_matches None m" by (simp add: method_matches_def)
  have eqs: "path_matches h path \<longleftrightarrow> path = h" "path_matches e path \<longleftrightarrow> path = e"
    "path_matches c path \<longleftrightarrow> path = c" "path_matches w path \<longleftrightarrow> path = w" using assms(3) by blast+
  consider "path = h" | "path = e" | "path = c" | "path \<noteq> h" "path \<noteq> e" "path \<noteq> c" by blast
  then show ?thesis
  proof cases
    case 4
    then show ?thesis using assms(1) eqs any
      by (cases b; cases oauth; cases "p = w"; cases "path_matches p path")
        (auto simp: mux_def assms(5))
  qed (use assms(1,2,4) eqs any in \<open>cases b; cases oauth; cases "p = w"; auto simp: mux_def assms(5)\<close>)+
qed



section \<open>Metrics read back\<close>

text \<open>What a scraper does: the integer after the first line that starts with a name.\<close>

definition read_counter :: "string \<Rightarrow> string \<Rightarrow> int option" where
  "read_counter name body =
     (case find (\<lambda>line. HasPrefix line (name @ '' '')) (SplitByte (CHR 0x0A) body) of
        Some line \<Rightarrow> Atoi (drop (Suc (length name)) line)
      | None \<Rightarrow> None)"

definition counters :: "telemetry \<Rightarrow> (string \<times> 64 word) list" where
  "counters t =
     [(''synthient_mcp_http_requests_total'', httpRequests t),
      (''synthient_mcp_http_inflight'', httpInflight t),
      (''synthient_mcp_http_rejected_total'', httpRejected t),
      (''synthient_mcp_http_principal_rejected_total'', httpPrincipalRejected t),
      (''synthient_mcp_http_rate_rejected_total'', httpRateRejected t),
      (''synthient_mcp_upstream_requests_total'', upstreamRequests t),
      (outcome_name ''success'', upstreamSuccess t),
      (outcome_name ''client_error'', upstreamClientErrors t),
      (outcome_name ''server_error'', upstreamServerErrors t),
      (outcome_name ''transport_error'', upstreamTransport t)]"

definition counter_names :: "string list" where
  "counter_names = map fst (counters telemetry_zero)"

lemma counter_names: "map fst (counters t) = counter_names"
  by (simp add: counter_names_def counters_def)

lemma counter_names_ok:
  "distinct counter_names" "list_all (\<lambda>n. CHR '' '' \<notin> set n \<and> CHR 0x0A \<notin> set n \<and> \<not> HasPrefix n ''#'' \<and> n \<noteq> []) counter_names"
  by code_simp+

lemma counter_name_ok:
  "(n, v) \<in> set (counters t) \<Longrightarrow> CHR '' '' \<notin> set n \<and> CHR 0x0A \<notin> set n \<and> \<not> HasPrefix n ''#'' \<and> n \<noteq> []"
proof -
  assume "(n, v) \<in> set (counters t)"
  then have "n \<in> set (map fst (counters t))" by (force simp del: set_map simp: set_map)
  then have "n \<in> set counter_names" unfolding counter_names .
  with counter_names_ok(2) show ?thesis unfolding list_all_iff by blast
qed

lemma SplitByte_lines:
  "\<forall>line\<in>set ls. nl \<notin> set line \<Longrightarrow> SplitByte nl (concat (map (\<lambda>line. line @ [nl]) ls) @ rest) = ls @ SplitByte nl rest"
  by (induction ls) (simp_all add: SplitByte_append)

lemma name_prefix:
  "CHR '' '' \<notin> set n \<Longrightarrow> CHR '' '' \<notin> set m \<Longrightarrow> HasPrefix (m @ '' '' @ r) (n @ '' '') \<longleftrightarrow> m = n"
proof (induction n arbitrary: m)
  case Nil
  then show ?case by (cases m) (auto simp: HasPrefix_def)
next
  case (Cons c n)
  then show ?case by (cases m) (auto simp: HasPrefix_def)
qed

lemma find_filter: "(\<And>x. P x \<Longrightarrow> Q x) \<Longrightarrow> find P (filter Q xs) = find P xs"
  by (induction xs) auto

lemma find_append_Some: "find P xs = Some x \<Longrightarrow> find P (xs @ ys) = Some x"
  by (induction xs) auto

lemma find_named:
  "(n, v) \<in> set table \<Longrightarrow> distinct (map fst table) \<Longrightarrow> \<forall>m\<in>set (map fst table). CHR '' '' \<notin> set m \<Longrightarrow>
     find (\<lambda>line. HasPrefix line (n @ '' '')) (map (\<lambda>(m, w). counter_line m w) table) = Some (counter_line n v)"
proof (induction table)
  case (Cons entry table)
  obtain m w where entry: "entry = (m, w)" by (cases entry)
  have "n \<in> set (map fst (entry # table))" using Cons.prems(1) by force
  then have "HasPrefix (counter_line m w) (n @ '' '') \<longleftrightarrow> m = n"
    using Cons.prems(3) name_prefix [of n m] by (auto simp: counter_line_def entry)
  then show ?case using Cons by (auto simp: entry rev_image_eqI)
qed simp

lemma Itoa_no_newline: "CHR 0x0A \<notin> set (Itoa v)"
proof
  assume "CHR 0x0A \<in> set (Itoa v)"
  then have "CHR 0x0A = CHR ''-'' \<or> (\<exists>n. CHR 0x0A \<in> set (digits 10 n))" by (auto simp: Itoa_def split: if_splits)
  then have "is_digit (CHR 0x0A)" using digits_10_digit by auto
  then show False by (simp add: is_digit_def byte_def)
qed

lemma metric_lines_form:
  "\<exists>ls duration. metric_lines seconds t = ls @ [duration] \<and>
     (\<forall>line\<in>set ls. CHR 0x0A \<notin> set line) \<and>
     filter (\<lambda>line. \<not> HasPrefix line ''#'') ls = map (\<lambda>(n, v). counter_line n v) (counters t)"
proof -
  let ?ls = "butlast (metric_lines seconds t)"
  have names: "\<not> HasPrefix n ''#'' \<Longrightarrow> n \<noteq> [] \<Longrightarrow> \<not> HasPrefix (counter_line n v) ''#''" for n v
    by (cases n) (simp_all add: counter_line_def HasPrefix_def)
  have "\<forall>(n, v)\<in>set (counters t). \<not> HasPrefix (counter_line n v) ''#''"
    using names counter_name_ok by blast
  then have plain: "list_all (\<lambda>(n, v). \<not> HasPrefix (counter_line n v) ''#'') (counters t)" by (simp add: list_all_iff)
  have "filter (\<lambda>line. \<not> HasPrefix line ''#'') ?ls = map (\<lambda>(n, v). counter_line n v) (counters t)"
    using plain unfolding counters_def metric_lines_def by (simp add: HasPrefix_def)
  moreover have "\<forall>line\<in>set ?ls. CHR 0x0A \<notin> set line"
  proof -
    have "set ?ls \<subseteq> set (map (\<lambda>(n, v). counter_line n v) (counters t)) \<union> set (filter (\<lambda>line. HasPrefix line ''#'') ?ls)"
      unfolding calculation [symmetric] by auto
    moreover have "list_all (\<lambda>line. CHR 0x0A \<notin> set line) (filter (\<lambda>line. HasPrefix line ''#'') ?ls)"
      using plain unfolding counters_def metric_lines_def by (simp add: HasPrefix_def)
    moreover have "CHR 0x0A \<notin> set (counter_line n v)" if "(n, v) \<in> set (counters t)" for n v
      using counter_name_ok [OF that] Itoa_no_newline by (simp add: counter_line_def)
    ultimately show ?thesis unfolding list_all_iff by fastforce
  qed
  moreover have "metric_lines seconds t = ?ls @ [last (metric_lines seconds t)]"
    by (simp add: metric_lines_def)
  ultimately show ?thesis by blast
qed


end
