(* ===== verification/Process.thy ===== *)
theory Process
  imports System Routes
begin

text \<open>
  Component \<open>cmd/server/main.go\<close>: the commands of the binary, the HTTP server's settings, its life from
  listening to shutdown, the health check, and the stdio server. What the operating system and the
  libraries do is a \<open>process\<close>: arguments, environment, the outcome of an HTTP request, of listening,
  of serving, of shutting down within a time, and of a stdio session with a client and options.
\<close>

section \<open>The HTTP server\<close>

record http_server =
  ServerAddr :: string
  ReadHeaderTimeout :: int
  ServerReadTimeout :: int
  ServerWriteTimeout :: int
  ServerIdleTimeout :: int
  ServerMaxHeaderBytes :: int

definition newHTTPServer :: "Config \<Rightarrow> http_server" where
  "newHTTPServer cfg =
     \<lparr>ServerAddr = Address cfg, ReadHeaderTimeout = 5 * Second,
      ServerReadTimeout = (if ReadTimeout cfg \<le> 0 then 20 * Second else ReadTimeout cfg),
      ServerWriteTimeout = (if WriteTimeout cfg \<le> 0 then 20 * Second else WriteTimeout cfg),
      ServerIdleTimeout = (if IdleTimeout cfg \<le> 0 then 60 * Second else IdleTimeout cfg),
      ServerMaxHeaderBytes = (if MaxHeaderBytes cfg \<le> 0 then 32768 else MaxHeaderBytes cfg)\<rparr>"

text \<open>\<open>Serve\<close> ends by itself or the context is cancelled first; then \<open>Shutdown\<close>, then \<open>Serve\<close>'s error.\<close>

datatype serve_error = ErrServerClosed | ServeError string

datatype serve_event = ServeReturned "serve_error option" | Cancelled

datatype server_action = Shutdown int | Close

datatype command_error =
    BadConfig config_error
  | BadStdioKey
  | StdioServer string
  | ListenFailed string
  | GracefulShutdown string
  | ServerFailed string
  | BadPort
  | HealthFailed string
  | HealthStatus int

definition serve_result :: "serve_error option \<Rightarrow> (command_error, unit) result" where
  "serve_result err = (case err of Some (ServeError m) \<Rightarrow> Inl (ServerFailed m) | _ \<Rightarrow> Inr ())"

definition serve ::
  "int \<Rightarrow> serve_event \<Rightarrow> (int \<Rightarrow> string option) \<Rightarrow> serve_error option \<Rightarrow>
     (command_error, unit) result \<times> server_action list" where
  "serve shutdownTimeout event shutdown serveErr =
     (let shutdownTimeout = (if shutdownTimeout \<le> 0 then 10 * Second else shutdownTimeout)
      in case event of
           ServeReturned err \<Rightarrow> (serve_result err, [])
         | Cancelled \<Rightarrow>
             (case shutdown shutdownTimeout of
                Some err \<Rightarrow> (Inl (GracefulShutdown err), [Shutdown shutdownTimeout, Close])
              | None \<Rightarrow> (serve_result serveErr, [Shutdown shutdownTimeout])))"

text \<open>\<open>newLogger\<close>: the level and whether lines are JSON.\<close>

definition newLogger :: "Config \<Rightarrow> LogLevel \<times> bool" where
  "newLogger cfg = (Config.LogLevel cfg, LogJSON cfg)"

section \<open>The stdio server\<close>

definition stdio_client :: "Config \<Rightarrow> string \<Rightarrow> Client" where
  "stdio_client cfg key =
     WithGRPCEndpoint (SynthientGRPCEndpoint cfg)
       (NewClient (SynthientBaseURL cfg) key []
         (Some \<lparr>standard = True, followsRedirects = True, clientTimeout = RequestTimeout cfg\<rparr>) False)"

datatype session_end = SessionOk | SessionCancelled | SessionFailed string

type_synonym session = "Client \<Rightarrow> Options \<Rightarrow> session_end"

definition runStdio :: "session \<Rightarrow> Config \<Rightarrow> string \<Rightarrow> (command_error, unit) result" where
  "runStdio run cfg key =
     (case run (stdio_client cfg key) (tool_options cfg) of
        SessionFailed m \<Rightarrow> Inl (StdioServer m)
      | _ \<Rightarrow> Inr ())"

definition Getenv :: "environment \<Rightarrow> string \<Rightarrow> string" where
  "Getenv env name = (case env name of Some v \<Rightarrow> v | None \<Rightarrow> [])"

definition runStdioCommand ::
  "golib \<Rightarrow> ((string \<times> string) list \<Rightarrow> (string \<times> string) list) \<Rightarrow> environment \<Rightarrow> session \<Rightarrow>
     (command_error, unit) result" where
  "runStdioCommand L order env run =
     (let key = TrimSpace (Getenv env ''SYNTHIENT_API_KEY'')
      in if key = [] \<or> 1024 < length key then Inl BadStdioKey
         else (case LoadFrom L order env of
                 Inl e \<Rightarrow> Inl (BadConfig e)
               | Inr cfg \<Rightarrow> runStdio run cfg key))"

section \<open>The health check\<close>

datatype get_result = GetFailed string | GotStatus int

definition healthcheck_port :: "environment \<Rightarrow> (command_error, int) result" where
  "healthcheck_port env =
     (let v = Getenv env ''PORT''
      in if v = [] then Inr 3000
         else (case Atoi v of
                 None \<Rightarrow> Inl BadPort
               | Some p \<Rightarrow> if p < 1 \<or> 65535 < p then Inl BadPort else Inr p))"

definition health_url :: "int \<Rightarrow> string" where
  "health_url port = ''http://'' @ JoinHostPort ''127.0.0.1'' (Itoa port) @ ''/healthz''"

definition healthcheck :: "environment \<Rightarrow> (string \<Rightarrow> get_result) \<Rightarrow> (command_error, unit) result" where
  "healthcheck env http_get =
     attempt (healthcheck_port env) (\<lambda>port.
       case http_get (health_url port) of
         GetFailed m \<Rightarrow> Inl (HealthFailed m)
       | GotStatus code \<Rightarrow> if code \<noteq> 200 then Inl (HealthStatus code) else Inr ())"

section \<open>The binary\<close>

record process =
  Args :: "string list"
  Env :: environment
  Built :: build
  HttpGet :: "string \<Rightarrow> get_result"
  Session :: session
  Listen :: "string \<Rightarrow> string option"
  Event :: serve_event
  ShutdownIn :: "int \<Rightarrow> string option"
  ServeEnd :: "serve_error option"

definition run ::
  "process \<Rightarrow> Config \<Rightarrow> (command_error, unit) result" where
  "run p cfg =
     (case Listen p (Address cfg) of
        Some err \<Rightarrow> Inl (ListenFailed err)
      | None \<Rightarrow> fst (serve (ShutdownTimeout cfg) (Event p) (ShutdownIn p) (ServeEnd p)))"

datatype exit = Exit0 string | Exit1 command_error

definition exit_of :: "(command_error, unit) result \<Rightarrow> exit" where
  "exit_of r = (case r of Inr _ \<Rightarrow> Exit0 [] | Inl e \<Rightarrow> Exit1 e)"

definition version_line :: "build \<Rightarrow> string" where
  "version_line b =
     ''synthient-mcp '' @ Version b @ '' (commit '' @ Commit b @ '', built '' @ Date b @ '')'' @ [CHR 0x0A]"

definition main ::
  "golib \<Rightarrow> ((string \<times> string) list \<Rightarrow> (string \<times> string) list) \<Rightarrow> process \<Rightarrow> exit" where
  "main L order p =
     (let command = (if length (Args p) = 2 then Args p ! 1 else [])
      in if command = ''--version'' \<or> command = ''version'' then Exit0 (version_line (Built p))
         else if command = ''healthcheck'' then exit_of (healthcheck (Env p) (HttpGet p))
         else if command = ''stdio'' then exit_of (runStdioCommand L order (Env p) (Session p))
         else (case LoadFrom L order (Env p) of
                 Inl e \<Rightarrow> Exit1 (BadConfig e)
               | Inr cfg \<Rightarrow> exit_of (run p cfg)))"

section \<open>Properties\<close>

text \<open>C33: The health check asks the server that the same environment starts: if the configuration is
  accepted, the check's port is the port of the configuration, and succeeds exactly when a GET of
  \<open>/healthz\<close> on the loopback address at that port answers 200; a GET of that path reaches the health
  handler, whatever else is configured.\<close>

theorem healthcheck_agrees:
  assumes "LoadFrom L order env = Inr cfg"
  shows "healthcheck_port env = Inr (Port cfg) \<and>
    (healthcheck env http_get = Inr () \<longleftrightarrow>
       http_get (''http://127.0.0.1:'' @ Itoa (Port cfg) @ ''/healthz'') = GotStatus 200) \<and>
    mux (routes L cfg) ''GET'' ''/healthz'' = Serve Healthz"
proof -
  from LoadFrom_fields [OF assms] have "integer env ''PORT'' 3000 1 65535 = Inr (Port cfg)" by blast
  then have port: "healthcheck_port env = Inr (Port cfg)"
    by (auto simp: integer_def healthcheck_port_def Getenv_def split: option.splits if_splits)
  have "health_url n = ''http://127.0.0.1:'' @ Itoa n @ ''/healthz''" for n
    by (simp add: health_url_def JoinHostPort_def)
  with port have "healthcheck env http_get = Inr () \<longleftrightarrow>
      http_get (''http://127.0.0.1:'' @ Itoa (Port cfg) @ ''/healthz'') = GotStatus 200"
    by (simp add: healthcheck_def split: get_result.split)
  moreover have "cleanPath ''/healthz'' = ''/healthz''" "path_matches ''/healthz'' ''/healthz''"
    "method_matches (Some ''GET'') ''GET''" by code_simp+
  then have "mux (routes L cfg) ''GET'' ''/healthz'' = Serve Healthz" by (simp add: mux_def routes_def)
  ultimately show ?thesis using port by blast
qed

theorem healthcheck_agrees_witness:
  "healthcheck (stream_env 30000) (\<lambda>url. GotStatus 200) = Inr () \<and> healthcheck_port (stream_env 30000) = Inr 3000"
  using healthcheck_agrees [OF LoadFrom_example, of "\<lambda>url. GotStatus 200"] by (simp add: stream_config_def)

text \<open>C32: A live sample ends before the HTTP server gives up on the response: under an accepted
  configuration the HTTP server runs with the configured timeouts and none of the fallbacks, and every
  deadline the sample tool accepts is within the stream timeout, which is shorter than the write timeout.\<close>

theorem sample_within_write_timeout:
  assumes "LoadFrom L order env = Inr cfg"
    and "sample_arguments L' (tool_options cfg) stream requested timeout filters = Inr (feed, events, seconds)"
  shows "seconds * Second \<le> StreamTimeout cfg \<and> StreamTimeout cfg < ServerWriteTimeout (newHTTPServer cfg) \<and>
    ServerReadTimeout (newHTTPServer cfg) = ReadTimeout cfg \<and>
    ServerWriteTimeout (newHTTPServer cfg) = WriteTimeout cfg \<and>
    ServerIdleTimeout (newHTTPServer cfg) = IdleTimeout cfg \<and>
    ServerMaxHeaderBytes (newHTTPServer cfg) = MaxHeaderBytes cfg"
proof -
  from LoadFrom_fields [OF assms(1)] obtain t s r w i
    where t: "integer env ''REQUEST_TIMEOUT_MS'' 15000 100 120000 = Inr t"
      and s: "integer env ''STREAM_TIMEOUT_MS'' 15000 1000 30000 = Inr s"
      and r: "integer env ''READ_TIMEOUT_MS'' (max t s + 5000) 1000 180000 = Inr r"
      and w: "integer env ''WRITE_TIMEOUT_MS'' (max t s + 5000) 1000 180000 = Inr w"
      and i: "integer env ''IDLE_TIMEOUT_MS'' 60000 1000 300000 = Inr i"
      and h: "integer env ''MAX_HEADER_BYTES'' 32768 8192 1048576 = Inr (MaxHeaderBytes cfg)"
      and c: "StreamTimeout cfg = s * Millisecond" "ReadTimeout cfg = r * Millisecond"
        "WriteTimeout cfg = w * Millisecond" "IdleTimeout cfg = i * Millisecond" "\<not> w \<le> s"
    by blast
  have b: "1000 \<le> s" "s \<le> 30000" "100 \<le> t" "t \<le> 120000" "1000 \<le> i" "8192 \<le> MaxHeaderBytes cfg"
    using integer_range [OF s] integer_range [OF t] integer_range [OF i] integer_range [OF h] by simp_all
  moreover have "1000 \<le> r" "1000 \<le> w"
    using integer_range [OF r] integer_range [OF w] b by (simp_all add: max_def)
  moreover have "seconds \<le> s * Millisecond div 10 ^ 9"
    using sample_arguments_Inr [OF assms(2)] maximum_timeout_cases [of "tool_options cfg"] b
    by (simp add: tool_options_def c Millisecond_def)
  then have "seconds * Second \<le> s * Millisecond" by (simp add: Second_def Millisecond_def)
  ultimately show ?thesis using c by (simp add: newHTTPServer_def Millisecond_def)
qed

theorem sample_within_write_timeout_witness:
  "\<exists>feed. sample_arguments example_golib (tool_options default_config) ''tls'' 0 0 [] = Inr (feed, 10, 10) \<and>
     10 * Second < ServerWriteTimeout (newHTTPServer default_config)"
proof -
  have load: "LoadFrom example_lib id (stream_env 15000) = Inr default_config"
    unfolding default_config_def by (rule LoadFrom_stream_env [OF example_api_url]) simp_all
  have s: "sample_arguments example_golib (tool_options default_config) ''tls'' 0 0 [] = Inr (feedStreams ! 4, 10, 10)"
    by (simp add: sample_arguments_def example_tls tool_options_def default_config_def stream_config_def
        maximum_timeout_def defaultSampleCount_def maxSampleCount_def defaultSampleTimeout_def validateFilters_def
        quot_nonneg Let_def)
  from sample_within_write_timeout [OF load s] s show ?thesis by fastforce
qed

lemma stdio_client_simps [simp]:
  "baseURL (stdio_client cfg key) = SynthientBaseURL cfg" "apiKey (stdio_client cfg key) = key"
  "forwardedFor (stdio_client cfg key) = []"
  "grpcEndpoint (stdio_client cfg key) = TrimSpace (SynthientGRPCEndpoint cfg)"
  by (simp_all add: stdio_client_def WithGRPCEndpoint_def NewClient_def)

lemma stdio_client_ok: "base_ok cfg \<Longrightarrow> client_ok (stdio_client cfg key)"
  by (auto simp: base_ok_def client_ok_def) (simp add: stdio_client_def WithGRPCEndpoint_def NewClient_def)

text \<open>C20: The stdio server. If the command ends well, the environment held a key of 1 to 1024 bytes
  after trimming and an accepted configuration, the session ran with that key and ended by itself or by
  cancellation; and every tool call of a session makes at most one exchange, below the configured base
  URL and with redirects off, or to the configured gRPC endpoint, with that key and no client address.\<close>

theorem stdio_session:
  assumes "runStdioCommand L order env session = Inr ()"
  shows "\<exists>cfg key. LoadFrom L order env = Inr cfg \<and> key = TrimSpace (Getenv env ''SYNTHIENT_API_KEY'') \<and>
    1 \<le> length key \<and> length key \<le> 1024 \<and>
    session (stdio_client cfg key) (tool_options cfg) \<in> {SessionOk, SessionCancelled} \<and>
    (\<forall>K R options call w. \<exists>new.
       Sent (snd (call_tool K (client_api R (stdio_client cfg key)) options call w)) = Sent w @ new \<and>
       length new \<le> 1 \<and>
       (\<forall>x\<in>set new. case x of
          Exchange d out \<Rightarrow>
            \<not> followsRedirects d \<and>
            (\<exists>api. SynthientBaseURL cfg = Some api \<and> secure_url api \<and> HasPrefix (Target out) (base_text api)) \<and>
            Values (OutHeader out) ''X-API-Key'' = [key] \<and> Values (OutHeader out) ''X-Forwarded-For'' = []
        | Reflection k endpoint symbols deadline \<Rightarrow>
            k = key \<and> endpoint = TrimSpace (SynthientGRPCEndpoint cfg)))"
proof -
  let ?key = "TrimSpace (Getenv env ''SYNTHIENT_API_KEY'')"
  from assms obtain cfg where cfg: "LoadFrom L order env = Inr cfg" "?key \<noteq> []" "length ?key \<le> 1024"
    "runStdio session cfg ?key = Inr ()"
    by (auto simp: runStdioCommand_def Let_def split: if_splits sum.splits)
  have base: "base_ok cfg" using cfg(1) by (rule LoadFrom_base)
  then obtain api where api: "SynthientBaseURL cfg = Some api" "secure_url api" by (auto simp: base_ok_def)
  have ended: "session (stdio_client cfg ?key) (tool_options cfg) \<in> {SessionOk, SessionCancelled}"
    using cfg(4) by (simp add: runStdio_def split: session_end.splits)
  have calls: "\<exists>new. Sent (snd (call_tool K (client_api R (stdio_client cfg ?key)) options call w)) = Sent w @ new \<and>
       length new \<le> 1 \<and>
       (\<forall>x\<in>set new. case x of
          Exchange d out \<Rightarrow>
            \<not> followsRedirects d \<and>
            (\<exists>api. SynthientBaseURL cfg = Some api \<and> secure_url api \<and> HasPrefix (Target out) (base_text api)) \<and>
            Values (OutHeader out) ''X-API-Key'' = [?key] \<and> Values (OutHeader out) ''X-Forwarded-For'' = []
        | Reflection k endpoint symbols deadline \<Rightarrow>
            k = ?key \<and> endpoint = TrimSpace (SynthientGRPCEndpoint cfg))" for K R options call w
    using call_exchange [OF stdio_client_ok [OF base], of K R ?key options call w] api
    unfolding list_all_iff confined_exchange_def by (fastforce split: exchange.splits)
  have "1 \<le> length ?key" using cfg(2) by (simp add: Suc_le_eq)
  then show ?thesis
    using cfg(1,3) ended calls by (intro exI [of _ cfg] exI [of _ ?key] conjI allI) (assumption | rule refl | blast)+
qed

theorem stdio_session_witness:
  "runStdioCommand example_lib rev oauth_env (\<lambda>_ _. SessionOk) = Inr () \<and>
   length (TrimSpace (Getenv oauth_env ''SYNTHIENT_API_KEY'')) \<le> 1024"
proof -
  have key: "TrimSpace (Getenv oauth_env ''SYNTHIENT_API_KEY'') = ''server-key''"
    by (simp add: oauth_env_def Getenv_def go_eval)
  obtain c where "LoadFrom example_lib rev oauth_env = Inr c" using LoadFrom_oauth_example by blast
  then have r: "runStdioCommand example_lib rev oauth_env (\<lambda>_ _. SessionOk) = Inr ()"
    by (simp add: runStdioCommand_def key runStdio_def)
  from stdio_session [OF this] r show ?thesis by blast
qed

text \<open>How serving ends. A server that stops by itself, or after a cancellation, gives the error it had,
  unless that is the orderly \<open>ErrServerClosed\<close>; a cancellation always leads to exactly one shutdown with
  a positive time limit, and connections are cut off only if that limit was exceeded, which is an error.\<close>

theorem serve_ends:
  "let (r, actions) = serve timeout event shutdown serveErr; wait = (if timeout \<le> 0 then 10 * Second else timeout)
   in 0 < wait \<and>
      (actions = [] \<longleftrightarrow> event \<noteq> Cancelled) \<and>
      (event = Cancelled \<longleftrightarrow> (\<exists>rest. actions = Shutdown wait # rest \<and> set rest \<subseteq> {Close})) \<and>
      (Close \<in> set actions \<longleftrightarrow> event = Cancelled \<and> shutdown wait \<noteq> None) \<and>
      (r = Inr () \<longleftrightarrow>
         (case event of
            ServeReturned err \<Rightarrow> err \<in> {None, Some ErrServerClosed}
          | Cancelled \<Rightarrow> shutdown wait = None \<and> serveErr \<in> {None, Some ErrServerClosed}))"
proof -
  have "serve_result e = Inr () \<longleftrightarrow> e \<in> {None, Some ErrServerClosed}" for e
    by (cases e) (auto simp: serve_result_def split: serve_error.splits)
  then show ?thesis
    by (auto simp: serve_def Let_def Second_def split: serve_event.splits option.splits)
qed

end
