(* ===== verification/Interleaving.thy ===== *)
theory Interleaving
  imports System
begin

text \<open>
  The running server as one state machine: the route of \<open>Server\<close> with the tool calls of \<open>System\<close> in it.
  While a request is in the MCP handler, its tools call the API through a client of its own, and every
  exchange moves the shared counters at once. The network and the rest of the runtime may answer each
  call differently. The third part of a state is the traffic so far, each exchange with the request it
  was made for.
\<close>

section \<open>States and steps\<close>

type_synonym traffic = "(Request \<times> exchange) list"
type_synonym system = "server \<times> requests \<times> traffic"

definition sent :: "traffic \<Rightarrow> exchange list" where
  "sent log = map snd log"

text \<open>One tool call of a request in the handler, on the shared counters.\<close>

definition serve_call ::
  "toolkit \<Rightarrow> runtime \<Rightarrow> Config \<Rightarrow> Request \<Rightarrow> tool_call \<Rightarrow> server \<times> traffic \<Rightarrow> server \<times> traffic" where
  "serve_call K R cfg request call = (\<lambda>(s, log).
     let w = snd (run_call K R cfg request call \<lparr>Sent = sent log, Stats = stats s\<rparr>)
     in (s\<lparr>stats := Stats w\<rparr>, log @ map (Pair request) (drop (length log) (Sent w))))"

inductive system_step :: "toolkit \<Rightarrow> golib \<Rightarrow> Config \<Rightarrow> system \<Rightarrow> system \<Rightarrow> bool" for K L cfg where
  arrive: "ps i = None \<Longrightarrow> Request.Token request = None \<Longrightarrow> begin_request requestID request s = (s', ph) \<Longrightarrow>
     system_step K L cfg (s, ps, log) (s', ps(i := Some ph), log)"
| progress: "ps i = Some ph \<Longrightarrow> (\<forall>r. ph \<noteq> Done r) \<Longrightarrow>
     advance L cfg bearer (\<lambda>request response. (answer request response, [])) now s ph = (s', ph') \<Longrightarrow>
     system_step K L cfg (s, ps, log) (s', ps(i := Some ph'), log)"
| call: "ps i = Some (Running who request response) \<Longrightarrow>
     serve_call K R cfg request tool (s, log) = (s', log') \<Longrightarrow>
     system_step K L cfg (s, ps, log) (s', ps, log')"

inductive system_reachable :: "toolkit \<Rightarrow> golib \<Rightarrow> Config \<Rightarrow> system \<Rightarrow> bool" for K L cfg where
  start: "system_reachable K L cfg (new_server cfg, \<lambda>_. None, [])"
| next_step: "system_reachable K L cfg \<sigma> \<Longrightarrow> system_step K L cfg \<sigma> \<sigma>' \<Longrightarrow> system_reachable K L cfg \<sigma>'"

section \<open>What a call does to the counters\<close>

text \<open>The counters the route keeps, without those of the calls to the API.\<close>

definition front :: "telemetry \<Rightarrow> telemetry" where
  "front t = t\<lparr>upstreamRequests := 0, upstreamTransport := 0, upstreamSuccess := 0,
     upstreamClientErrors := 0, upstreamServerErrors := 0, upstreamDurationNanos := 0\<rparr>"

definition forget :: "server \<Rightarrow> server" where
  "forget s = s\<lparr>stats := front (stats s)\<rparr>"

lemma front_observe [simp]: "front (ObserveUpstream code elapsed t) = front t"
  by (simp add: front_def ObserveUpstream_def Let_def)

lemma front_observe_calls [simp]: "front (observe_calls calls t) = front t"
  unfolding observe_calls_def by (induction calls arbitrary: t) auto

lemma front_commutes [simp]:
  "front (t\<lparr>httpRequests := a\<rparr>) = (front t)\<lparr>httpRequests := a\<rparr>"
  "front (t\<lparr>httpInflight := a\<rparr>) = (front t)\<lparr>httpInflight := a\<rparr>"
  "front (t\<lparr>httpRejected := a\<rparr>) = (front t)\<lparr>httpRejected := a\<rparr>"
  "front (t\<lparr>httpPrincipalRejected := a\<rparr>) = (front t)\<lparr>httpPrincipalRejected := a\<rparr>"
  "front (t\<lparr>httpRateRejected := a\<rparr>) = (front t)\<lparr>httpRateRejected := a\<rparr>"
  "front (front t) = front t"
  by (simp_all add: front_def)

lemma front_reads [simp]:
  "httpRequests (front t) = httpRequests t" "httpInflight (front t) = httpInflight t"
  "httpRejected (front t) = httpRejected t" "httpPrincipalRejected (front t) = httpPrincipalRejected t"
  "httpRateRejected (front t) = httpRateRejected t"
  by (simp_all add: front_def)

lemma forget_simps [simp]:
  "semaphore (forget s) = semaphore s" "limiter (forget s) = limiter s" "inflight (forget s) = inflight s"
  "stats (forget s) = front (stats s)" "forget (forget s) = forget s"
  "forget (s\<lparr>semaphore := n\<rparr>) = (forget s)\<lparr>semaphore := n\<rparr>"
  "forget (s\<lparr>limiter := l\<rparr>) = (forget s)\<lparr>limiter := l\<rparr>"
  "forget (s\<lparr>inflight := m\<rparr>) = (forget s)\<lparr>inflight := m\<rparr>"
  "forget (new_server cfg) = new_server cfg"
  by (simp_all add: forget_def new_server_def front_def telemetry_zero_def)

lemma front_step: "upstream_step c w w' \<Longrightarrow> front (Stats w') = front (Stats w)"
  by (induction rule: upstream_step.induct) (simp_all add: observe_def)

lemma front_behaves:
  assumes "\<And>w. upstream_step c w (snd (act w))"
  shows "behaves (\<lambda>w. front (Stats w) = t) exchanges act"
  using front_step [OF assms] step_keeps [OF assms] by (simp add: behaves_def)

interpretation fronting: api_contract "client_api R c" "\<lambda>w. front (Stats w) = t" exchanges for R c t
proof unfold_locales
  show "behaves (\<lambda>w. front (Stats w) = t) exchanges (GRPCSchemaOp (client_api R c) deadline symbols)" for deadline symbols
    by (simp add: client_api_def behaves_def Client_GRPCSchema_def exchanges_def)
qed (simp_all add: client_api_def front_behaves [OF client_step(1)] front_behaves [OF client_step(2)]
    front_behaves [OF client_step(3)] front_behaves [OF client_step(4)] front_behaves [OF client_step(5)]
    front_behaves [OF client_step(6)] front_behaves [OF SampleStream_step])

lemma run_call_front: "front (Stats (snd (run_call K R cfg request call w))) = front (Stats w)"
  using fronting.call_tool_behaves [of "front (Stats w)" K R "request_client cfg request" "tool_options cfg" call]
  by (simp add: behaves_def run_call_def)

lemma serve_call_forget: "serve_call K R cfg request call (s, log) = (s', log') \<Longrightarrow> forget s' = forget s"
  by (auto simp: serve_call_def Let_def forget_def run_call_front)

section \<open>The route does not look at what the calls count\<close>

lemma forget_count:
  "(\<And>t. front (f t) = f (front t)) \<Longrightarrow> forget (count_stat f s) = count_stat f (forget s)"
  by (simp add: forget_def count_stat_def)

lemma begin_request_forget:
  "begin_request requestID request (forget s) = map_prod forget id (begin_request requestID request s)"
  by (simp add: begin_request_def forget_count)

lemma rateHandler_forget:
  "rateHandler (forget s) now request response = map_prod forget id (rateHandler s now request response)"
  by (auto simp: rateHandler_def reject_def Let_def forget_count split: option.split prod.split rate_decision.split)

lemma limitConcurrent_forget:
  "limitConcurrent cap (forget s) response = map_prod forget id (limitConcurrent cap s response)"
  by (simp add: limitConcurrent_def forget_count split: option.split)

lemma limitConcurrentPerPrincipal_forget:
  "limitConcurrentPerPrincipal cap (forget s) request response =
     map_prod forget id (limitConcurrentPerPrincipal cap s request response)"
  by (simp add: limitConcurrentPerPrincipal_def Let_def forget_count split: option.split)

lemma advance_forget:
  "advance L cfg bearer (\<lambda>request response. (fst (answers request response), [])) now (forget s) ph =
     map_prod forget id (advance L cfg bearer answers now s ph)"
proof (cases ph)
  case (Running who request response)
  have "forget (count_stat (observe_calls calls) v) = forget v" for calls v
    by (simp add: forget_def count_stat_def)
  moreover have "count_stat (observe_calls []) v = v" for v
    by (simp add: count_stat_def observe_calls_def)
  ultimately show ?thesis using Running by (simp split: prod.split)
qed (auto simp: limitConcurrent_forget rateHandler_forget limitConcurrentPerPrincipal_forget forget_count
    split: outcome.split prod.split admission.split)

section \<open>The route, with and without its calls\<close>

lemma system_advance:
  assumes "system_reachable K L cfg (s, ps, log)" "ps i = Some ph" "\<forall>r. ph \<noteq> Done r"
    "advance L cfg bearer (\<lambda>request response. (answer request response, [])) now s ph = (s', ph')"
  shows "system_reachable K L cfg (s', ps(i := Some ph'), log)"
  using assms by (blast intro: system_reachable.next_step system_step.progress)

lemma system_to_route: "system_reachable K L cfg (s, ps, log) \<Longrightarrow> reachable L cfg (forget s, ps)"
proof (induction "(s, ps, log)" arbitrary: s ps log rule: system_reachable.induct)
  case start
  show ?case by (simp add: reachable.start)
next
  case (next_step \<sigma>)
  obtain s0 ps0 log0 where \<sigma>: "\<sigma> = (s0, ps0, log0)" by (cases \<sigma>)
  note ih = next_step.hyps(2) [OF \<sigma>]
  from next_step.hyps(3) [unfolded \<sigma>] show ?case
  proof (cases rule: system_step.cases)
    case (arrive i request requestID ph)
    then have "begin_request requestID request (forget s0) = (forget s, ph)" by (simp add: begin_request_forget)
    with arrive ih show ?thesis by (auto intro: reachable.next_step step.arrive)
  next
    case (progress i ph bearer answer now ph')
    have "advance L cfg bearer (\<lambda>request response. (answer request response, [])) now (forget s0) ph = (forget s, ph')"
      using advance_forget [of L cfg bearer "\<lambda>request response. (answer request response, [])" now s0 ph]
        progress(5) by simp
    with progress ih show ?thesis by (auto intro: reachable.next_step step.progress)
  next
    case (call i who request response R tool)
    with ih show ?thesis by (simp add: serve_call_forget)
  qed
qed

lemma route_to_system: "reachable L cfg (s, ps) \<Longrightarrow> system_reachable K L cfg (forget s, ps, [])"
proof (induction "(s, ps)" arbitrary: s ps rule: reachable.induct)
  case start
  show ?case by (simp add: system_reachable.start)
next
  case (next_step \<sigma>)
  obtain s0 ps0 where \<sigma>: "\<sigma> = (s0, ps0)" by (cases \<sigma>)
  note ih = next_step.hyps(2) [OF \<sigma>]
  from next_step.hyps(3) [unfolded \<sigma>] show ?case
  proof (cases rule: step.cases)
    case (arrive i request requestID ph)
    then have "begin_request requestID request (forget s0) = (forget s, ph)" by (simp add: begin_request_forget)
    with arrive ih show ?thesis by (auto intro: system_reachable.next_step system_step.arrive)
  next
    case (progress i ph bearer answers now ph')
    have "advance L cfg bearer (\<lambda>request response. (fst (answers request response), [])) now (forget s0) ph =
        (forget s, ph')"
      using advance_forget [of L cfg bearer answers now s0 ph] progress(4) by simp
    from system_advance [OF ih progress(2,3) this] progress(1) show ?thesis by simp
  qed
qed

section \<open>The traffic\<close>

lemma serve_call_log:
  assumes "base_ok cfg" "serve_call K R cfg request call (s, log) = (s', log')"
  shows "\<exists>new. log' = log @ map (Pair request) new \<and> list_all (confined_exchange (request_client cfg request)) new"
proof -
  obtain new where "Sent (snd (run_call K R cfg request call \<lparr>Sent = sent log, Stats = stats s\<rparr>)) = sent log @ new"
    "list_all (confined_exchange (request_client cfg request)) new"
    using run_call_exchange [OF assms(1), of K R request call "\<lparr>Sent = sent log, Stats = stats s\<rparr>"] by auto
  with assms(2) show ?thesis by (auto simp: serve_call_def Let_def sent_def)
qed

definition log_ok :: "golib \<Rightarrow> Config \<Rightarrow> traffic \<Rightarrow> bool" where
  "log_ok L cfg log \<longleftrightarrow> (\<forall>(request, x) \<in> set log.
     (\<exists>response. phase_ok L cfg (Running (requestPrincipal request) request response)) \<and>
     confined_exchange (request_client cfg request) x)"

definition metered :: "server \<Rightarrow> traffic \<Rightarrow> bool" where
  "metered s log \<longleftrightarrow>
     upstreamRequests (stats s) = of_nat (length (filter is_http (sent log))) \<and>
     outcomes (stats s) = upstreamRequests (stats s)"

lemma metered_counted: "metered s log \<longleftrightarrow> counted (request_client cfg request) \<lparr>Sent = sent log, Stats = stats s\<rparr>"
  by (simp add: metered_def counted_def)

lemma metered_advance:
  assumes "advance L cfg bearer (\<lambda>request response. (answer request response, [])) now s ph = (s', ph')"
    "metered s log"
  shows "metered s' log"
proof -
  have "upstreamRequests (stats s') = upstreamRequests (stats s)"
    using assms(1) by (cases ph) (auto simp: limitConcurrent_def limitConcurrentPerPrincipal_def Let_def
      observe_calls_def dest!: rateHandler_shared split: advance_splits)
  with advance_balanced [OF assms(1)] assms(2) show ?thesis by (simp add: metered_def)
qed

lemma serve_call_metered:
  assumes "base_ok cfg" "serve_call K R cfg request call (s, log) = (s', log')" "metered s log"
  shows "metered s' log'"
proof -
  let ?w = "\<lparr>Sent = sent log, Stats = stats s\<rparr>"
  obtain new where new: "Sent (snd (run_call K R cfg request call ?w)) = sent log @ new"
    using run_call_exchange [OF assms(1), of K R request call ?w] by auto
  have "counted (request_client cfg request) (snd (run_call K R cfg request call ?w))"
    using run_call_behaves [of cfg request K R call] assms(3) metered_counted [of s log cfg request]
    by (simp add: behaves_def)
  with new assms(2) show ?thesis by (auto simp: serve_call_def Let_def metered_def counted_def sent_def comp_def)
qed

lemma system_invariant:
  assumes "base_ok cfg"
  shows "system_reachable K L cfg (s, ps, log) \<Longrightarrow> log_ok L cfg log \<and> metered s log"
proof (induction "(s, ps, log)" arbitrary: s ps log rule: system_reachable.induct)
  case start
  show ?case by (simp add: log_ok_def metered_def sent_def new_server_def telemetry_zero_def outcomes_def)
next
  case (next_step \<sigma>)
  obtain s0 ps0 log0 where \<sigma>: "\<sigma> = (s0, ps0, log0)" by (cases \<sigma>)
  note ih = next_step.hyps(2) [OF \<sigma>]
  from next_step.hyps(3) [unfolded \<sigma>] show ?case
  proof (cases rule: system_step.cases)
    case (arrive i request requestID ph)
    then have "stats s = (stats s0)\<lparr>httpRequests := httpRequests (stats s0) + 1, httpInflight := httpInflight (stats s0) + 1\<rparr>"
      by (auto simp: begin_request_def)
    with arrive ih show ?thesis by (simp add: metered_def outcomes_def)
  next
    case (progress i ph bearer answer now ph')
    with ih metered_advance show ?thesis by blast
  next
    case (call i who request response R tool)
    from system_to_route [OF next_step.hyps(1) [unfolded \<sigma>]] call(2)
    have "phase_ok L cfg (Running who request response)" by (rule reachable_phase_ok)
    then have "\<exists>response. phase_ok L cfg (Running (requestPrincipal request) request response)" by auto
    moreover obtain new where "log = log0 @ map (Pair request) new"
      "list_all (confined_exchange (request_client cfg request)) new"
      using serve_call_log [OF assms call(3)] by blast
    ultimately show ?thesis
      using ih serve_call_metered [OF assms call(3)] by (auto simp: log_ok_def list_all_iff)
  qed
qed

section \<open>Properties\<close>


text \<open>Where an exchange may go with a key.\<close>

definition travels :: "Config \<Rightarrow> string \<Rightarrow> exchange \<Rightarrow> bool" where
  "travels cfg key x \<longleftrightarrow>
     (case x of
         Exchange d out \<Rightarrow>
           \<not> followsRedirects d \<and> Values (OutHeader out) ''X-API-Key'' = [key] \<and>
           (\<exists>api. SynthientBaseURL cfg = Some api \<and> secure_url api \<and> HasPrefix (Target out) (base_text api)) \<and>
           (\<forall>a\<in>set (Values (OutHeader out) ''X-Forwarded-For''). ForwardClientIP cfg \<and> canonicalIP a = Inr a)
       | Reflection k endpoint symbols deadline \<Rightarrow>
           k = key \<and> endpoint = TrimSpace (SynthientGRPCEndpoint cfg))"

text \<open>C2: The server as a whole, under a configuration the loader accepts, in every interleaving of
  requests and of the calls their tools make. Each exchange with the API was made for a request that
  passed every guard; it carries one key, in API-key mode that request's own single key, which its limits
  were charged to (non-empty, without surrounding space or comma, of bounded length), in OAuth mode the
  server's; an HTTP exchange stays below the configured base URL, which is HTTPS or a loopback host, with
  redirects off, and passes on only a canonical client address, and none when forwarding is off. The
  counter of upstream requests is, as a 64-bit number, the number of HTTP exchanges, each in one of the
  four outcomes. And no principal has more than its share of requests making calls.\<close>

theorem whole_system:
  assumes "LoadFrom L order lookup = Inr cfg" and "system_reachable K L cfg (s, ps, log)"
  shows "(\<forall>(request, x)\<in>set log. \<exists>key.
      (if AuthMode cfg = ''oauth'' then key = SynthientAPIKey cfg
       else Values (ReqHeader request) ''X-API-Key'' = [key] \<and>
         requestPrincipal request = ''api-key:'' @ EncodeToString (Sum256 key) \<and>
         key \<noteq> [] \<and> TrimSpace key = key \<and> CHR '','' \<notin> set key \<and>
         int (length key) \<le> (if MaxAPIKeyLength cfg \<le> 0 then 1024 else MaxAPIKeyLength cfg)) \<and>
      (case x of
         Exchange d out \<Rightarrow>
           \<not> followsRedirects d \<and> Values (OutHeader out) ''X-API-Key'' = [key] \<and>
           (\<exists>api. SynthientBaseURL cfg = Some api \<and> secure_url api \<and> HasPrefix (Target out) (base_text api)) \<and>
           (\<forall>a\<in>set (Values (OutHeader out) ''X-Forwarded-For''). ForwardClientIP cfg \<and> canonicalIP a = Inr a)
       | Reflection k endpoint symbols deadline \<Rightarrow>
           k = key \<and> endpoint = TrimSpace (SynthientGRPCEndpoint cfg))) \<and>
    upstreamRequests (stats s) = of_nat (length (filter (is_http \<circ> snd) log)) \<and>
    outcomes (stats s) = upstreamRequests (stats s) \<and>
    (\<forall>who. card {i. \<exists>request response. ps i = Some (Running who request response)} \<le> nat (perPrincipal cfg))"
proof -
  have base: "base_ok cfg" using assms(1) by (rule LoadFrom_base)
  then obtain api where api: "SynthientBaseURL cfg = Some api" "secure_url api" by (auto simp: base_ok_def)
  from system_invariant [OF base assms(2)] have log: "log_ok L cfg log" and metered: "metered s log" by blast+
  have keys: "\<forall>(request, x)\<in>set log. \<exists>key. spends cfg request key \<and> travels cfg key x"
  proof clarify
    fix request x assume "(request, x) \<in> set log"
    with log obtain response where "phase_ok L cfg (Running (requestPrincipal request) request response)"
      and x: "confined_exchange (request_client cfg request) x" by (auto simp: log_ok_def)
    from running_key [OF this(1)] x api show "\<exists>key. spends cfg request key \<and> travels cfg key x"
      by (intro exI [of _ "upstream_key cfg request"]) (auto simp: travels_def confined_exchange_def split: exchange.splits)
  qed
  have counts: "upstreamRequests (stats s) = of_nat (length (filter (is_http \<circ> snd) log))"
    "outcomes (stats s) = upstreamRequests (stats s)"
    using metered by (simp_all add: metered_def sent_def filter_map)
  have "card {i. \<exists>request response. ps i = Some (Running who request response)} \<le> nat (perPrincipal cfg)" for who
    using running_bounded [OF server_inv_reachable [OF system_to_route [OF assms(2)]]] .
  then show ?thesis by (intro conjI keys [unfolded spends_def travels_def] counts allI)
qed

text \<open>The example request in the handler makes a call of its own.\<close>

theorem whole_system_witness:
  "\<exists>s ps d out. system_reachable example_toolkit example_lib default_config (s, ps, [(example_request, Exchange d out)]) \<and>
     Values (OutHeader out) ''X-API-Key'' = [''k''] \<and> upstreamRequests (stats s) = 1"
proof -
  have load: "LoadFrom example_lib id (stream_env 15000) = Inr default_config"
    unfolding default_config_def by (rule LoadFrom_stream_env [OF example_api_url]) simp_all
  have mode: "(AuthMode default_config = ''oauth'') = False" by (simp add: default_config_def stream_config_def)
  let ?who = "requestPrincipal example_request"
  obtain s response where "reachable example_lib default_config (s, solo (Running ?who example_request response))"
    using example_running by blast
  from route_to_system [OF this]
  have r: "system_reachable example_toolkit example_lib default_config
      (forget s, solo (Running ?who example_request response), [])" .
  obtain d out where out: "Sent (snd (run_call example_toolkit example_runtime default_config example_request GetAccount
      \<lparr>Sent = [], Stats = stats (forget s)\<rparr>)) = [Exchange d out]"
    using example_exchange [of example_toolkit example_request "\<lparr>Sent = [], Stats = stats (forget s)\<rparr>"] by auto
  let ?log = "[(example_request, Exchange d out)]"
  obtain s' where "serve_call example_toolkit example_runtime default_config example_request GetAccount (forget s, []) =
      (s', ?log)"
    using out by (simp add: serve_call_def Let_def sent_def)
  then have "system_step example_toolkit example_lib default_config
      (forget s, solo (Running ?who example_request response), [])
      (s', solo (Running ?who example_request response), ?log)"
    by (intro system_step.call [of _ 0]) (simp_all add: solo_def)
  with r have r': "system_reachable example_toolkit example_lib default_config
      (s', solo (Running ?who example_request response), ?log)"
    by (rule system_reachable.next_step)
  have "Values (ReqHeader example_request) ''X-API-Key'' = [''k'']"
    by (simp add: example_request_def header_simps) (simp add: key_request_def Values_def)
  with whole_system [OF load r', unfolded mode if_False] r' show ?thesis by fastforce
qed

end
