(* ===== verification/Throughput.thy ===== *)
theory Throughput
  imports Server
begin

text \<open>
  How many requests of a principal the server lets through. The limiter reads the clock before it takes
  its mutex, so concurrent requests may reach its table with their readings out of order; the first part
  says what a window promises whatever the order of the readings. The second part follows the limiter
  through the route: the requests it let through, in any interleaving, are those of a limiter run on the
  sequence of its critical sections.
\<close>

section \<open>A window under any clock\<close>

text \<open>The times at which a limiter used with one key admits, in the order of its decisions.\<close>

fun grants :: "('s \<Rightarrow> int \<Rightarrow> 's \<times> 'd) \<Rightarrow> ('d \<Rightarrow> bool) \<Rightarrow> 's \<Rightarrow> int list \<Rightarrow> int list" where
  "grants f ok s [] = []"
| "grants f ok s (t # ts) =
     (if ok (snd (f s t)) then t # grants f ok (fst (f s t)) ts else grants f ok (fst (f s t)) ts)"

text \<open>A fixed window that a refused request leaves as it was.\<close>

locale steady_window = fixed_window +
  assumes refused: "inv s \<Longrightarrow> \<not> ok (snd (step s k t)) \<Longrightarrow> view (fst (step s k t)) k = view s k"
begin

lemma next_window:
  assumes "inv s" "1 \<le> cap"
    and "(case view s k of Some (c, r) \<Rightarrow> cap - c | None \<Rightarrow> 0) < int (length (grants (\<lambda>s. step s k) ok s ts))"
  shows "\<exists>g t s' ts'. grants (\<lambda>s. step s k) ok s ts = g @ t # grants (\<lambda>s. step s k) ok s' ts' \<and>
    int (length g) \<le> (case view s k of Some (c, r) \<Rightarrow> cap - c | None \<Rightarrow> 0) \<and>
    (\<forall>c r. view s k = Some (c, r) \<longrightarrow> r \<le> t) \<and> inv s' \<and> view s' k = Some (1, t + period)"
  using assms
proof (induction ts arbitrary: s)
  case Nil
  then show ?case using inv_view [of s k] by (auto split: option.splits prod.splits)
next
  case (Cons t ts)
  let ?s = "fst (step s k t)"
  have inv: "inv ?s" using Cons.prems(1) by (rule inv_step)
  consider (idle) "\<not> ok (snd (step s k t))"
    | (again) c r where "ok (snd (step s k t))" "view s k = Some (c, r)" "t < r"
    | (fresh) "ok (snd (step s k t))" "\<forall>c r. view s k = Some (c, r) \<longrightarrow> r \<le> t"
    by (metis not_less)
  then show ?case
  proof cases
    case idle
    with Cons.IH [OF inv] Cons.prems refused [OF Cons.prems(1)] show ?thesis by simp
  next
    case again
    with counted [OF Cons.prems(1)] have v: "view ?s k = Some (c + 1, r)" by blast
    with Cons.prems(3) again have "cap - (c + 1) < int (length (grants (\<lambda>s. step s k) ok ?s ts))" by simp
    with Cons.IH [OF inv Cons.prems(2)] v obtain g t' s' ts'
      where "grants (\<lambda>s. step s k) ok ?s ts = g @ t' # grants (\<lambda>s. step s k) ok s' ts'"
        "int (length g) \<le> cap - (c + 1)" "r \<le> t'" "inv s'" "view s' k = Some (1, t' + period)" by auto
    with again show ?thesis by (intro exI [of _ "t # g"] exI [of _ t'] exI [of _ s'] exI [of _ ts']) simp
  next
    case fresh
    with opened [OF Cons.prems(1)] have v: "view ?s k = Some (1, t + period)" by blast
    have "0 \<le> (case view s k of Some (c, r) \<Rightarrow> cap - c | None \<Rightarrow> 0)"
      using inv_view [OF Cons.prems(1), of k] by (auto split: option.splits)
    with fresh v inv show ?thesis
      by (intro exI [of _ "[]"] exI [of _ t] exI [of _ ?s] exI [of _ ts]) simp
  qed
qed

lemma two_openings:
  assumes "inv s" "1 \<le> cap" "2 * cap \<le> int (length (grants (\<lambda>s. step s k) ok s ts))"
  shows "\<exists>g t g' t' rest. grants (\<lambda>s. step s k) ok s ts = g @ t # g' @ t' # rest \<and>
    int (length g + length g') + 2 \<le> 2 * cap \<and> t + period \<le> t'"
proof -
  have left: "(case view s k of Some (c, r) \<Rightarrow> cap - c | None \<Rightarrow> 0) \<le> cap - 1"
    using assms(2) inv_view [OF assms(1), of k] by (auto split: option.splits)
  with assms(3) have "(case view s k of Some (c, r) \<Rightarrow> cap - c | None \<Rightarrow> 0) <
      int (length (grants (\<lambda>s. step s k) ok s ts))" using assms(2) by linarith
  from next_window [OF assms(1,2) this] obtain g t s' ts'
    where g: "grants (\<lambda>s. step s k) ok s ts = g @ t # grants (\<lambda>s. step s k) ok s' ts'" "int (length g) \<le> cap - 1"
      and s': "inv s'" "view s' k = Some (1, t + period)" using left by force
  have "cap - 1 < int (length (grants (\<lambda>s. step s k) ok s' ts'))" using g assms(3) by simp
  with next_window [OF s'(1) assms(2), of k ts'] s'(2) obtain g' t' rest
    where "grants (\<lambda>s. step s k) ok s' ts' = g' @ t' # rest" "int (length g') \<le> cap - 1" "t + period \<le> t'"
    by auto
  with g show ?thesis
    by (intro exI [of _ g] exI [of _ t] exI [of _ g'] exI [of _ t'] exI [of _ rest]) simp
qed

lemma grants_split:
  "inv s \<Longrightarrow> grants (\<lambda>s. step s k) ok s ts = xs @ ys \<Longrightarrow>
     \<exists>s' ts'. inv s' \<and> grants (\<lambda>s. step s k) ok s' ts' = ys"
proof (induction ts arbitrary: s xs)
  case Nil
  then show ?case by (intro exI [of _ s] exI [of _ "[]"]) simp
next
  case (Cons t ts)
  note inv = inv_step [OF Cons.prems(1), of k t]
  consider "xs = []" | "\<not> ok (snd (step s k t))"
    | xs' where "xs = t # xs'" "grants (\<lambda>s. step s k) ok (fst (step s k t)) ts = xs' @ ys"
    using Cons.prems(2) by (cases xs) (auto split: if_splits)
  then show ?case
  proof cases
    case 1
    with Cons.prems show ?thesis by (intro exI [of _ s] exI [of _ "t # ts"]) simp
  next
    case 2
    with Cons.prems Cons.IH [OF inv, of xs] show ?thesis by simp
  next
    case 3
    then show ?thesis using Cons.IH [OF inv] by blast
  qed
qed

lemma any_order:
  assumes "inv s" "1 \<le> cap" "grants (\<lambda>s. step s k) ok s ts = xs @ ys @ zs" "int (length ys) = 2 * cap"
  shows "\<exists>i j. i < j \<and> j < length ys \<and> ys ! i + period \<le> ys ! j"
proof -
  from grants_split [OF assms(1,3)] obtain s' ts'
    where s': "inv s'" "grants (\<lambda>s. step s k) ok s' ts' = ys @ zs" by blast
  with two_openings [OF s'(1) assms(2), of k ts'] assms(4) obtain g t g' t' rest
    where split: "ys @ zs = g @ t # g' @ t' # rest" and short: "int (length g + length g') + 2 \<le> 2 * cap"
      and apart: "t + period \<le> t'" by auto
  define i j where "i = length g" and "j = length g + 1 + length g'"
  have j: "i < j" "j < length ys" using short assms(4) by (simp_all add: i_def j_def)
  then have "ys ! i = (ys @ zs) ! i" "ys ! j = (ys @ zs) ! j" by (simp_all add: nth_append)
  then have "ys ! i = t" "ys ! j = t'" unfolding split by (simp_all add: i_def j_def nth_append)
  with apart j show ?thesis by blast
qed

end

text \<open>The limiter, when only one principal uses it.\<close>

interpretation lone: steady_window "\<lambda>s (_ :: unit) t. rate_step s who t" admitted "\<lambda>s _. window_view s who"
  "\<lambda>s. rate_inv n s \<and> 1 \<le> n \<and> Mapping.keys (windows s) \<subseteq> {who}" n Minute for who n
proof unfold_locales
  fix s t c r and k k' :: unit
  assume inv: "rate_inv n s \<and> 1 \<le> n \<and> Mapping.keys (windows s) \<subseteq> {who}"
  then show "rate_inv n (fst (rate_step s who t)) \<and> 1 \<le> n \<and>
      Mapping.keys (windows (fst (rate_step s who t))) \<subseteq> {who}"
    using rate_inv_step keys_rate_step [of s who t] by blast
  show "0 \<le> n" using inv by simp
  show "window_view s who = Some (c, r) \<Longrightarrow> 1 \<le> c \<and> c \<le> n" using inv rate.inv_view by blast
  show "window_view (fst (rate_step s who t)) who = window_view s who \<or>
      (\<exists>c r. window_view s who = Some (c, r) \<and> r \<le> t \<and> window_view (fst (rate_step s who t)) who = None)"
    if "k' \<noteq> k \<or> \<not> admitted (snd (rate_step s who t))"
    using that inv rate.untouched [of n s who who t] by simp
  show "admitted (snd (rate_step s who t)) \<Longrightarrow> window_view s who = Some (c, r) \<Longrightarrow> t < r \<Longrightarrow>
      c < n \<and> window_view (fst (rate_step s who t)) who = Some (c + 1, r)"
    using inv rate.counted by blast
  show "admitted (snd (rate_step s who t)) \<Longrightarrow> \<forall>c r. window_view s who = Some (c, r) \<longrightarrow> r \<le> t \<Longrightarrow>
      0 < n \<and> window_view (fst (rate_step s who t)) who = Some (1, t + Minute)"
    using inv rate.opened by blast
  show "window_view (fst (rate_step s who t)) who = window_view s who" if "\<not> admitted (snd (rate_step s who t))"
  proof (cases "live_window s who t")
    case (Some w)
    with that show ?thesis by (auto simp: rate_step_cases admitted_def split: if_splits)
  next
    case None
    have "\<not> maxTrackedRatePrincipals \<le> Mapping.size (cleaned s who t)"
      using no_sweep(2) [of s "{who}", OF _ _ _ _ None] inv by (simp add: maxTrackedRatePrincipals_def)
    with that None inv show ?thesis by (simp add: rate_step_cases admitted_def rate_inv_def)
  qed
qed

lemma run_grants:
  "\<forall>(q, t)\<in>set es. q = who \<Longrightarrow>
     map (snd \<circ> fst) (filter (\<lambda>(e, d). d = Admitted) (zip es (run_events rate_step s es))) =
     grants (\<lambda>s. rate_step s who) admitted s (map snd es)"
  by (induction es arbitrary: s) (auto simp: admitted_def)

lemma zip_filter_keys:
  "length ds = length es \<Longrightarrow>
     filter (\<lambda>((q, t), d). q = who) (zip es ds) =
     zip (filter (\<lambda>(q, t). q = who) es) (map snd (filter (\<lambda>((q, t), d). q = who) (zip es ds)))"
  by (induction ds es rule: list_induct2) auto

text \<open>The readings at which a principal's requests are let through, in the order of the table.\<close>

definition passes :: "int \<Rightarrow> (string \<times> int) list \<Rightarrow> string \<Rightarrow> int list" where
  "passes n es who =
     map (snd \<circ> fst) (filter (\<lambda>((q, t), d). q = who \<and> d = Admitted) (zip es (rate_decisions n es)))"

lemma passes_grants:
  assumes "card (set (map fst es)) \<le> maxTrackedRatePrincipals"
  shows "passes n es who =
    grants (\<lambda>s. rate_step s who) admitted (limitRatePerPrincipal n) (map snd (filter (\<lambda>(q, t). q = who) es))"
proof (cases "who \<in> set (map fst es)")
  case True
  let ?zs = "zip es (rate_decisions n es)" and ?fs = "filter (\<lambda>(q, t). q = who) es"
  have own: "map snd (filter (\<lambda>((q, t), d). q = who) ?zs) = rate_decisions n ?fs"
    using assms True by (intro rate_projection [where P = "set (map fst es)"])
      (auto simp: limitRatePerPrincipal_def agree_on_def)
  have "filter (\<lambda>((q, t), d). q = who \<and> d = Admitted) ?zs =
      filter (\<lambda>(e, d). d = Admitted) (filter (\<lambda>((q, t), d). q = who) ?zs)"
    by (simp add: split_def conj_commute)
  also have "filter (\<lambda>((q, t), d). q = who) ?zs = zip ?fs (rate_decisions n ?fs)"
    using zip_filter_keys [of "rate_decisions n es" es who] own by simp
  finally show ?thesis unfolding passes_def using run_grants [of ?fs who "limitRatePerPrincipal n"] by auto
next
  case False
  then have "filter (\<lambda>(q, t). q = who) es = []" by (force simp: filter_empty_conv)
  moreover have "passes n es who = []"
    using False by (force simp: passes_def filter_empty_conv dest!: set_zip_leftD)
  ultimately show ?thesis by simp
qed

lemma passes_any_order:
  assumes "1 \<le> n" "card (set (map fst es)) \<le> maxTrackedRatePrincipals"
    and "passes n es who = xs @ ys @ zs" "int (length ys) = 2 * n"
  shows "\<exists>i j. i < j \<and> j < length ys \<and> ys ! i + Minute \<le> ys ! j"
proof (rule lone.any_order [of n "limitRatePerPrincipal n" who])
  show "grants (\<lambda>s. rate_step s who) admitted (limitRatePerPrincipal n) (map snd (filter (\<lambda>(q, t). q = who) es)) = xs @ ys @ zs"
    using assms(3) passes_grants [OF assms(2)] by simp
qed (use assms rate_inv_start [of n] in \<open>simp_all add: limitRatePerPrincipal_def\<close>)

section \<open>The limiter in the route\<close>

lemma run_events_snoc:
  "run_events f s (es @ [(k, t)]) = run_events f s es @ [snd (f (final_state f s es) k t)]"
  "final_state f s (es @ [(k, t)]) = fst (f (final_state f s es) k t)"
  by (induction f s es rule: run_events.induct) auto

text \<open>What a step asks of the limiter, and what it lets through, with the reading of the clock.\<close>

fun charged :: "phase \<Rightarrow> int \<Rightarrow> (string \<times> int) list" where
  "charged (Guarded request response) now =
     (if requestPrincipal request = [] then [] else [(requestPrincipal request, now)])"
| "charged _ now = []"

fun let_in :: "phase \<Rightarrow> phase \<Rightarrow> int \<Rightarrow> (string \<times> int) list" where
  "let_in (Guarded request response) (PassedRate request' response') now = [(requestPrincipal request, now)]"
| "let_in _ _ now = []"

text \<open>The route with its history at the limiter: what was asked of it, in the order of the mutex, and
  what it let through.\<close>

inductive timed ::
  "golib \<Rightarrow> Config \<Rightarrow> (string \<times> int) list \<Rightarrow> (string \<times> int) list \<Rightarrow> server \<times> requests \<Rightarrow> bool"
  for L cfg where
  start: "timed L cfg [] [] (new_server cfg, \<lambda>_. None)"
| arrive: "timed L cfg es through (s, ps) \<Longrightarrow> ps i = None \<Longrightarrow> Token request = None \<Longrightarrow>
     begin_request requestID request s = (s', ph) \<Longrightarrow> timed L cfg es through (s', ps(i := Some ph))"
| progress: "timed L cfg es through (s, ps) \<Longrightarrow> ps i = Some ph \<Longrightarrow> (\<forall>r. ph \<noteq> Done r) \<Longrightarrow>
     advance L cfg bearer handler now s ph = (s', ph') \<Longrightarrow>
     timed L cfg (es @ charged ph now) (through @ let_in ph ph' now) (s', ps(i := Some ph'))"

text \<open>The history restricts nothing.\<close>

lemma timed_reachable: "timed L cfg es through \<sigma> \<Longrightarrow> reachable L cfg \<sigma>"
  by (induction rule: timed.induct) (blast intro: reachable.intros step.intros)+

lemma reachable_timed: "reachable L cfg \<sigma> \<Longrightarrow> \<exists>es through. timed L cfg es through \<sigma>"
proof (induction rule: reachable.induct)
  case start
  then show ?case by (blast intro: timed.start)
next
  case (next_step \<sigma> \<sigma>')
  from next_step.hyps(2) next_step.IH show ?case
    by (cases rule: step.cases) (blast intro: timed.arrive timed.progress)+
qed

lemma advance_limiter:
  assumes "advance L cfg bearer handler now s ph = (s', ph')" "limiter s = Some lim"
  shows "(charged ph now = [] \<and> let_in ph ph' now = [] \<and> limiter s' = Some lim) \<or>
    (\<exists>who. charged ph now = [(who, now)] \<and> limiter s' = Some (fst (rate_step lim who now)) \<and>
       let_in ph ph' now = (if snd (rate_step lim who now) = Admitted then [(who, now)] else []))"
  using assms
  by (cases ph) (auto simp: limitConcurrent_def limitConcurrentPerPrincipal_def rateHandler_def reject_def Let_def
      split: advance_splits rate_decision.splits)

lemma timed_limiter:
  assumes "0 < MaxRequestsPerMinute cfg"
  shows "timed L cfg es through (s, ps) \<Longrightarrow>
    limiter s = Some (rate_after (MaxRequestsPerMinute cfg) es) \<and>
    through = map fst (filter (\<lambda>(e, d). d = Admitted) (zip es (rate_decisions (MaxRequestsPerMinute cfg) es)))"
proof (induction es through "(s, ps)" arbitrary: s ps rule: timed.induct)
  case start
  then show ?case using assms by (simp add: new_server_def)
next
  case (arrive es through s ps i request requestID s' ph)
  then have "limiter s' = limiter s" by (auto simp: begin_request_def)
  with arrive show ?case by simp
next
  case (progress es through s ps i ph bearer handler now s' ph')
  from advance_limiter [OF progress(5)] progress(2) show ?case
    by (auto simp: run_events_snoc)
qed

section \<open>Properties\<close>



end
